theory Spec2Isabelle
  imports Complex_Main "HOL-Library.AList"
begin

section \<open>Python values shared by the modules\<close>

text \<open>
  A Python \<open>dict\<close> is an association list in insertion order (the order matters where
  the code iterates \<open>items()\<close>); \<open>d.get(k, default)\<close> is \<open>dict_get\<close>, \<open>d[k] = v\<close> is
  \<open>AList.update\<close>, which overwrites in place or appends. Coordinates and confidences
  are Python floats, idealised as reals. An exception is a value of \<open>py_error\<close>.
\<close>

datatype py_error =
  TypeError | KeyError | IndexError | ValueError
  | FileNotFoundError | FileExistsError | IsADirectoryError | UnpicklingError

type_synonym ('k, 'v) py_dict = "('k \<times> 'v) list"

definition dict_get :: "('k, 'v) py_dict \<Rightarrow> 'k \<Rightarrow> 'v \<Rightarrow> 'v" where
  "dict_get d k dflt = (case map_of d k of None \<Rightarrow> dflt | Some v \<Rightarrow> v)"

type_synonym bbox = "real list"
type_synonym track_info = "(string, bbox) py_dict"
type_synonym track_entry = "(int, track_info) py_dict"

section \<open>trackers/ball\_tracker.py: remove\_wrong\_detections\<close>

text \<open>\<open>ball_positions[i].get(1, {}).get('bbox', [])\<close>\<close>

definition box_of :: "track_entry \<Rightarrow> bbox" where
  "box_of e = dict_get (dict_get e 1 []) ''bbox'' []"

text \<open>
  \<open>np.linalg.norm(np.array(a) - np.array(b))\<close> for one-dimensional arrays: the
  subtraction is elementwise on equal shapes, a one-element array is broadcast against
  the other, and any other pair of shapes raises ValueError.
\<close>

definition np_norm_diff :: "real list \<Rightarrow> real list \<Rightarrow> py_error + real" where
  "np_norm_diff a b =
     (if length a = length b then Inr (sqrt (\<Sum>(x, y)\<leftarrow>zip a b. (x - y)\<^sup>2))
      else if length a = 1 then Inr (sqrt (\<Sum>y\<leftarrow>b. (hd a - y)\<^sup>2))
      else if length b = 1 then Inr (sqrt (\<Sum>x\<leftarrow>a. (x - hd b)\<^sup>2))
      else Inl ValueError)"

definition maximum_allowed_distance :: int where
  "maximum_allowed_distance = 25"

text \<open>
  The body of the loop over \<open>i\<close>, on the pair of the list being mutated and
  \<open>last_good_frame_index\<close>.
\<close>

definition rwd_body :: "nat \<Rightarrow> track_entry list \<times> int \<Rightarrow> py_error + track_entry list \<times> int" where
  "rwd_body i s =
     (let ball_positions = fst s; last_good_frame_index = snd s;
          current_box = box_of (ball_positions ! i) in
      if length current_box = 0 then Inr s
      else if last_good_frame_index = - 1 then Inr (ball_positions, int i)
      else
        (let last_good_box = box_of (ball_positions ! nat last_good_frame_index);
             frame_gap = int i - last_good_frame_index;
             adjusted_max_distance = maximum_allowed_distance * frame_gap
         in case np_norm_diff (take 2 last_good_box) (take 2 current_box) of
              Inl e \<Rightarrow> Inl e
            | Inr d \<Rightarrow>
                if d > real_of_int adjusted_max_distance
                then Inr (ball_positions[i := []], last_good_frame_index)
                else Inr (ball_positions, int i)))"

text \<open>\<open>for i in idxs: body\<close>, stopping at the first exception.\<close>

fun for_each :: "'i list \<Rightarrow> ('i \<Rightarrow> 's \<Rightarrow> py_error + 's) \<Rightarrow> 's \<Rightarrow> py_error + 's" where
  "for_each [] body s = Inr s"
| "for_each (i # idxs) body s =
     (case body i s of Inl e \<Rightarrow> Inl e | Inr s' \<Rightarrow> for_each idxs body s')"

text \<open>
  The list is mutated in place and returned: the result is the final content of the
  caller's list as well.
\<close>

definition remove_wrong_detections :: "track_entry list \<Rightarrow> py_error + track_entry list" where
  "remove_wrong_detections ball_positions =
     (case for_each [0..<length ball_positions] rwd_body (ball_positions, - 1) of
        Inl e \<Rightarrow> Inl e
      | Inr s \<Rightarrow> Inr (fst s))"


text \<open>\<open>{1: {"bbox": b}}\<close>, the entry of a frame in which the ball has box \<open>b\<close>.\<close>

definition ball_entry :: "bbox \<Rightarrow> track_entry" where
  "ball_entry b = [(1, [(''bbox'', b)])]"

subsection \<open>Outlier rejection as the specification words it\<close>

text \<open>
  Section 4.5 of the specification, on one optional box per frame (\<open>[]\<close> is "no box"):
  the pass carries the index and box of the last accepted frame; a frame with no box is
  skipped, the first frame with a box becomes the reference, and a later box is
  discarded when the Euclidean distance of the top-left corners exceeds 25 times the
  number of frames since the reference.
\<close>

definition corner_distance :: "bbox \<Rightarrow> bbox \<Rightarrow> real" where
  "corner_distance a b = sqrt ((a ! 0 - b ! 0)\<^sup>2 + (a ! 1 - b ! 1)\<^sup>2)"

fun outlier_rejection :: "nat \<Rightarrow> (nat \<times> bbox) option \<Rightarrow> bbox list \<Rightarrow> bbox list" where
  "outlier_rejection i last_good [] = []"
| "outlier_rejection i last_good (b # bs) =
     (if b = [] then [] # outlier_rejection (Suc i) last_good bs
      else case last_good of
        None \<Rightarrow> b # outlier_rejection (Suc i) (Some (i, b)) bs
      | Some (j, r) \<Rightarrow>
          if corner_distance r b > 25 * real (i - j)
          then [] # outlier_rejection (Suc i) last_good bs
          else b # outlier_rejection (Suc i) (Some (i, b)) bs)"

section \<open>utils/stubs\_utils.py: the pickle cache\<close>

text \<open>
  The file system is a map from paths to nodes: a directory, a file holding a pickled
  value, or a file that does not unpickle. Paths are compared as strings (POSIX, no
  normalisation); permissions are not modelled.
\<close>

datatype 'a node = Dir | Pickle_file 'a | Garbage_file

type_synonym 'a filesystem = "string \<Rightarrow> 'a node option"

text \<open>
  \<open>posixpath.dirname\<close>: everything up to the last slash, with the trailing slashes
  removed unless the head is made of slashes only.
\<close>

definition os_path_dirname :: "string \<Rightarrow> string" where
  "os_path_dirname p =
     (let head = rev (dropWhile (\<lambda>c. c \<noteq> CHR ''/'') (rev p)) in
      if head \<noteq> [] \<and> head \<noteq> replicate (length head) (CHR ''/'')
      then rev (dropWhile (\<lambda>c. c = CHR ''/'') (rev head))
      else head)"

text \<open>\<open>os.path.dirname(stub_path)\<close> on an argument that may be \<open>None\<close>: \<open>os.fspath(None)\<close> raises TypeError.\<close>

definition py_dirname :: "string option \<Rightarrow> py_error + string" where
  "py_dirname stub_path = (case stub_path of None \<Rightarrow> Inl TypeError | Some p \<Rightarrow> Inr (os_path_dirname p))"

text \<open>\<open>os.path.exists\<close>: the empty path names nothing.\<close>

definition os_path_exists :: "'a filesystem \<Rightarrow> string \<Rightarrow> bool" where
  "os_path_exists fs p = (p \<noteq> [] \<and> fs p \<noteq> None)"

text \<open>
  \<open>os.makedirs(d)\<close> creates \<open>d\<close> and its missing ancestors; it raises
  FileNotFoundError on the empty path and FileExistsError when \<open>d\<close> exists.
\<close>

definition parent_dirs :: "string \<Rightarrow> string list" where
  "parent_dirs d = map (\<lambda>i. take i d) (filter (\<lambda>i. d ! i = CHR ''/'') [1..<length d])"

definition os_makedirs :: "'a filesystem \<Rightarrow> string \<Rightarrow> py_error + 'a filesystem" where
  "os_makedirs fs d =
     (if d = [] then Inl FileNotFoundError
      else if os_path_exists fs d then Inl FileExistsError
      else Inr (\<lambda>p. if p = d \<or> (p \<in> set (parent_dirs d) \<and> fs p = None) then Some Dir else fs p))"

text \<open>\<open>with open(p, 'wb') as f: pickle.dump(object, f)\<close> and \<open>with open(p, 'rb') as f: pickle.load(f)\<close>\<close>

definition pickle_dump :: "'a filesystem \<Rightarrow> string \<Rightarrow> 'a \<Rightarrow> py_error + 'a filesystem" where
  "pickle_dump fs p object =
     (case fs p of
        Some Dir \<Rightarrow> Inl IsADirectoryError
      | _ \<Rightarrow> Inr (fs(p \<mapsto> Pickle_file object)))"

definition pickle_load :: "'a filesystem \<Rightarrow> string \<Rightarrow> py_error + 'a" where
  "pickle_load fs p =
     (case fs p of
        None \<Rightarrow> Inl FileNotFoundError
      | Some Dir \<Rightarrow> Inl IsADirectoryError
      | Some Garbage_file \<Rightarrow> Inl UnpicklingError
      | Some (Pickle_file object) \<Rightarrow> Inr object)"

definition save_stub :: "'a filesystem \<Rightarrow> string option \<Rightarrow> 'a \<Rightarrow> py_error + 'a filesystem" where
  "save_stub fs stub_path object =
     (case py_dirname stub_path of
        Inl e \<Rightarrow> Inl e
      | Inr d \<Rightarrow>
          (case (if \<not> os_path_exists fs d then os_makedirs fs d else Inr fs) of
             Inl e \<Rightarrow> Inl e
           | Inr fs' \<Rightarrow>
               (case stub_path of
                  None \<Rightarrow> Inr fs'
                | Some p \<Rightarrow> pickle_dump fs' p object)))"

definition read_stub :: "'a filesystem \<Rightarrow> bool \<Rightarrow> string option \<Rightarrow> py_error + 'a option" where
  "read_stub fs read_from_stub stub_path =
     (case stub_path of
        None \<Rightarrow> Inr None
      | Some p \<Rightarrow>
          if read_from_stub \<and> os_path_exists fs p
          then (case pickle_load fs p of Inl e \<Rightarrow> Inl e | Inr object \<Rightarrow> Inr (Some object))
          else Inr None)"

section \<open>trackers: detections and the per-frame ball choice\<close>

text \<open>
  One element of \<open>sv.Detections\<close> (box, confidence, class id, tracker id) and one YOLO
  result: the class names table \<open>names\<close> (id to name) and the detections of a frame.
\<close>

record detection =
  xyxy :: bbox
  confidence :: real
  class_id :: int
  tracker_id :: int

record yolo_result =
  names :: "(int, string) py_dict"
  boxes :: "detection list"

text \<open>\<open>{v: k for k, v in cls_names.items()}\<close>: a later id overwrites an earlier one of the same name.\<close>

definition cls_names_inv :: "(int, string) py_dict \<Rightarrow> (string, int) py_dict" where
  "cls_names_inv cls_names = foldl (\<lambda>inv (k, v). AList.update v k inv) [] cls_names"

text \<open>\<open>d[k]\<close>, which raises KeyError on a missing key.\<close>

definition dict_index :: "('k, 'v) py_dict \<Rightarrow> 'k \<Rightarrow> py_error + 'v" where
  "dict_index d k = (case map_of d k of None \<Rightarrow> Inl KeyError | Some v \<Rightarrow> Inr v)"

text \<open>
  The body of \<open>for frame_detection in detection_supervision\<close> in
  \<open>BallTracker.get_object_tracks\<close>, on the pair \<open>(chosen_bbox, max_confidence)\<close>.
\<close>

definition ball_select_body ::
  "(int, string) py_dict \<Rightarrow> detection \<Rightarrow> bbox option \<times> real \<Rightarrow> py_error + bbox option \<times> real" where
  "ball_select_body cls_names frame_detection s =
     (let chosen_bbox = fst s; max_confidence = snd s;
          bbox = xyxy frame_detection;
          cls_id = class_id frame_detection;
          confidence = confidence frame_detection in
      case dict_index (cls_names_inv cls_names) ''Ball'' of
        Inl e \<Rightarrow> Inl e
      | Inr ball_id \<Rightarrow>
          if cls_id = ball_id
          then (if max_confidence < confidence then Inr (Some bbox, confidence) else Inr s)
          else Inr s)"

text \<open>One iteration of the loop over frames: the entry appended to \<open>tracks\<close>.\<close>

definition ball_frame_tracks :: "yolo_result \<Rightarrow> py_error + track_entry" where
  "ball_frame_tracks detection =
     (case for_each (boxes detection) (ball_select_body (names detection)) (None, 0) of
        Inl e \<Rightarrow> Inl e
      | Inr s \<Rightarrow>
          (case fst s of
             None \<Rightarrow> Inr []
           | Some chosen_bbox \<Rightarrow> Inr (AList.update 1 [(''bbox'', chosen_bbox)] [])))"

subsection \<open>The ball choice as the specification words it\<close>

text \<open>
  A detection is a ball when the names table resolves its class id to the label
  \<open>Ball\<close>; the choice is the first detection whose confidence no other exceeds.
\<close>

definition is_ball :: "(int, string) py_dict \<Rightarrow> detection \<Rightarrow> bool" where
  "is_ball cls_names d = (map_of cls_names (class_id d) = Some ''Ball'')"

definition first_most_confident :: "detection list \<Rightarrow> detection option" where
  "first_most_confident ds =
     find (\<lambda>d. list_all (\<lambda>d'. confidence d' \<le> confidence d) ds) ds"

section \<open>trackers: get\_object\_tracks\<close>

text \<open>
  The world a tracking pass acts on: the file system holding the caches, and the log
  of the calls made to the external detector, tracker and classifier. The detector
  and the tracker are parameters (\<open>model_predict\<close>, \<open>tracker_update\<close>); their
  failures are not modelled.
\<close>

datatype ext_call = Predict nat | Tracker_update | Load_model | Classify nat int

record 'v world =
  fsys :: "'v filesystem"
  ext_calls :: "ext_call list"

text \<open>\<open>range(start, stop, step)\<close> for a positive step.\<close>

definition range_step :: "nat \<Rightarrow> nat \<Rightarrow> nat \<Rightarrow> nat list" where
  "range_step start stop step = map (\<lambda>k. start + k * step) [0..<(stop - start + step - 1) div step]"

definition batch_size :: nat where
  "batch_size = 20"

text \<open>\<open>detect_frames\<close>, the same in both trackers: one \<open>predict\<close> call per batch of 20 frames.\<close>

definition detect_frames ::
  "('f list \<Rightarrow> yolo_result list) \<Rightarrow> 'f list \<Rightarrow> ext_call list \<Rightarrow> yolo_result list \<times> ext_call list" where
  "detect_frames model_predict frames calls =
     foldl (\<lambda>(detections, calls) i.
              let batch = take batch_size (drop i frames)
              in (detections @ model_predict batch, calls @ [Predict (length batch)]))
       ([], calls) (range_step 0 (length frames) batch_size)"

text \<open>A loop that appends one result per element, stopping at the first exception.\<close>

fun map_result :: "('a \<Rightarrow> py_error + 'b) \<Rightarrow> 'a list \<Rightarrow> py_error + 'b list" where
  "map_result f [] = Inr []"
| "map_result f (x # xs) =
     (case f x of
        Inl e \<Rightarrow> Inl e
      | Inr y \<Rightarrow> (case map_result f xs of Inl e \<Rightarrow> Inl e | Inr ys \<Rightarrow> Inr (y # ys)))"

text \<open>\<open>if tracks is not None: if len(tracks) == len(frames): return tracks\<close>\<close>

definition valid_cache :: "'a list option \<Rightarrow> 'f list \<Rightarrow> 'a list option" where
  "valid_cache cached frames =
     (case cached of
        None \<Rightarrow> None
      | Some tracks \<Rightarrow> if length tracks = length frames then Some tracks else None)"

definition ball_get_object_tracks ::
  "('f list \<Rightarrow> yolo_result list) \<Rightarrow> track_entry list world \<Rightarrow> 'f list \<Rightarrow> bool \<Rightarrow> string option \<Rightarrow>
     py_error + track_entry list \<times> track_entry list world" where
  "ball_get_object_tracks model_predict w frames read_from_stub stub_path =
     (case read_stub (fsys w) read_from_stub stub_path of
        Inl e \<Rightarrow> Inl e
      | Inr cached \<Rightarrow>
          (case valid_cache cached frames of
             Some tracks \<Rightarrow> Inr (tracks, w)
           | None \<Rightarrow>
               (let (detections, calls) = detect_frames model_predict frames (ext_calls w) in
                case map_result ball_frame_tracks detections of
                  Inl e \<Rightarrow> Inl e
                | Inr tracks \<Rightarrow>
                    (case save_stub (fsys w) stub_path tracks of
                       Inl e \<Rightarrow> Inl e
                     | Inr fs' \<Rightarrow> Inr (tracks, \<lparr>fsys = fs', ext_calls = calls\<rparr>)))))"

text \<open>
  \<open>PlayerTracker.get_object_tracks\<close>: the body of the loop over the tracked
  detections of a frame, the body of the loop over frames, and the function.
\<close>

definition player_store_body ::
  "(int, string) py_dict \<Rightarrow> detection \<Rightarrow> track_entry \<Rightarrow> py_error + track_entry" where
  "player_store_body cls_names frame_detection entry =
     (let bbox = xyxy frame_detection;
          cls_id = class_id frame_detection;
          track_id = tracker_id frame_detection in
      case dict_index (cls_names_inv cls_names) ''Player'' of
        Inl e \<Rightarrow> Inl e
      | Inr player_id \<Rightarrow>
          if cls_id = player_id then Inr (AList.update track_id [(''bbox'', bbox)] entry)
          else Inr entry)"

definition player_frame_body ::
  "('ts \<Rightarrow> detection list \<Rightarrow> 'ts \<times> detection list) \<Rightarrow> yolo_result \<Rightarrow>
     track_entry list \<times> 'ts \<times> ext_call list \<Rightarrow> py_error + track_entry list \<times> 'ts \<times> ext_call list" where
  "player_frame_body tracker_update detection s =
     (case s of (tracks, ts, calls) \<Rightarrow>
        (let (ts', detection_with_tracks) = tracker_update ts (boxes detection) in
         case for_each detection_with_tracks (player_store_body (names detection)) [] of
           Inl e \<Rightarrow> Inl e
         | Inr entry \<Rightarrow> Inr (tracks @ [entry], ts', calls @ [Tracker_update])))"

definition player_get_object_tracks ::
  "('f list \<Rightarrow> yolo_result list) \<Rightarrow> ('ts \<Rightarrow> detection list \<Rightarrow> 'ts \<times> detection list) \<Rightarrow> 'ts \<Rightarrow>
     track_entry list world \<Rightarrow> 'f list \<Rightarrow> bool \<Rightarrow> string option \<Rightarrow>
     py_error + track_entry list \<times> 'ts \<times> track_entry list world" where
  "player_get_object_tracks model_predict tracker_update ts w frames read_from_stub stub_path =
     (case read_stub (fsys w) read_from_stub stub_path of
        Inl e \<Rightarrow> Inl e
      | Inr cached \<Rightarrow>
          (case valid_cache cached frames of
             Some tracks \<Rightarrow> Inr (tracks, ts, w)
           | None \<Rightarrow>
               (let (detections, calls) = detect_frames model_predict frames (ext_calls w) in
                case for_each detections (player_frame_body tracker_update) ([], ts, calls) of
                  Inl e \<Rightarrow> Inl e
                | Inr (tracks, ts', calls') \<Rightarrow>
                    (case save_stub (fsys w) stub_path tracks of
                       Inl e \<Rightarrow> Inl e
                     | Inr fs' \<Rightarrow> Inr (tracks, ts', \<lparr>fsys = fs', ext_calls = calls'\<rparr>)))))"

section \<open>team\_assigner/team\_assigner.py\<close>

text \<open>
  The classifier \<open>get_player_color\<close> (CLIP on the cropped frame) is a parameter. The
  memo table \<open>self.player_team_dict\<close> and the log of external calls are threaded
  through; a classifier call is logged with the index of the frame it is made for.
\<close>

type_synonym team_assignment = "(int, int) py_dict"

text \<open>\<open>xs[i]\<close> for a non-negative index, which raises IndexError out of range.\<close>

definition list_index :: "'a list \<Rightarrow> nat \<Rightarrow> py_error + 'a" where
  "list_index xs i = (if i < length xs then Inr (xs ! i) else Inl IndexError)"

definition get_player_team ::
  "('f \<Rightarrow> bbox \<Rightarrow> string) \<Rightarrow> string \<Rightarrow> nat \<Rightarrow> 'f \<Rightarrow> bbox \<Rightarrow> int \<Rightarrow>
     team_assignment \<times> ext_call list \<Rightarrow> int \<times> team_assignment \<times> ext_call list" where
  "get_player_team get_player_color team_1_class_name frame_num frame player_bbox player_id s =
     (let player_team_dict = fst s; calls = snd s in
      case map_of player_team_dict player_id of
        Some team \<Rightarrow> (team, s)
      | None \<Rightarrow>
          (let player_color = get_player_color frame player_bbox;
               team_id = (if player_color = team_1_class_name then 1 else 2)
           in (team_id, AList.update player_id team_id player_team_dict,
               calls @ [Classify frame_num player_id])))"

text \<open>
  The body of \<open>for player_id, track in player_track.items()\<close>, on the triple of the
  frame's assignment, the memo table and the call log; then the body of the loop over
  frames, which clears the memo table at every frame index divisible by 50.
\<close>

definition team_item_body ::
  "('f \<Rightarrow> bbox \<Rightarrow> string) \<Rightarrow> string \<Rightarrow> 'f list \<Rightarrow> nat \<Rightarrow> int \<times> track_info \<Rightarrow>
     team_assignment \<times> team_assignment \<times> ext_call list \<Rightarrow>
     py_error + team_assignment \<times> team_assignment \<times> ext_call list" where
  "team_item_body get_player_color team_1_class_name video_frames frame_num item s =
     (case item of (player_id, track) \<Rightarrow>
      case s of (entry, player_team_dict, calls) \<Rightarrow>
        (case list_index video_frames frame_num of
           Inl e \<Rightarrow> Inl e
         | Inr frame \<Rightarrow>
             (case dict_index track ''bbox'' of
                Inl e \<Rightarrow> Inl e
              | Inr bbox \<Rightarrow>
                  (case get_player_team get_player_color team_1_class_name frame_num frame bbox
                          player_id (player_team_dict, calls) of
                     (team, player_team_dict', calls') \<Rightarrow>
                       Inr (AList.update player_id team entry, player_team_dict', calls')))))"

definition team_frame_body ::
  "('f \<Rightarrow> bbox \<Rightarrow> string) \<Rightarrow> string \<Rightarrow> 'f list \<Rightarrow> track_entry list \<Rightarrow> nat \<Rightarrow>
     team_assignment list \<times> team_assignment \<times> ext_call list \<Rightarrow>
     py_error + team_assignment list \<times> team_assignment \<times> ext_call list" where
  "team_frame_body get_player_color team_1_class_name video_frames player_tracks frame_num s =
     (case s of (player_assignment, player_team_dict, calls) \<Rightarrow>
        (let player_team_dict = (if frame_num mod 50 = 0 then [] else player_team_dict) in
         case for_each (player_tracks ! frame_num)
                (team_item_body get_player_color team_1_class_name video_frames frame_num)
                ([], player_team_dict, calls) of
           Inl e \<Rightarrow> Inl e
         | Inr (entry, player_team_dict', calls') \<Rightarrow>
             Inr (player_assignment @ [entry], player_team_dict', calls')))"

definition get_player_teams_across_frames ::
  "('f \<Rightarrow> bbox \<Rightarrow> string) \<Rightarrow> string \<Rightarrow> team_assignment \<Rightarrow> team_assignment list world \<Rightarrow>
     'f list \<Rightarrow> track_entry list \<Rightarrow> bool \<Rightarrow> string option \<Rightarrow>
     py_error + team_assignment list \<times> team_assignment \<times> team_assignment list world" where
  "get_player_teams_across_frames get_player_color team_1_class_name player_team_dict w
       video_frames player_tracks read_from_stub stub_path =
     (case read_stub (fsys w) read_from_stub stub_path of
        Inl e \<Rightarrow> Inl e
      | Inr cached \<Rightarrow>
          (case valid_cache cached video_frames of
             Some player_assignment \<Rightarrow> Inr (player_assignment, player_team_dict, w)
           | None \<Rightarrow>
               (case for_each [0..<length player_tracks]
                       (team_frame_body get_player_color team_1_class_name video_frames player_tracks)
                       ([], player_team_dict, ext_calls w @ [Load_model]) of
                  Inl e \<Rightarrow> Inl e
                | Inr (player_assignment, player_team_dict', calls') \<Rightarrow>
                    (case save_stub (fsys w) stub_path player_assignment of
                       Inl e \<Rightarrow> Inl e
                     | Inr fs' \<Rightarrow>
                         Inr (player_assignment, player_team_dict',
                              \<lparr>fsys = fs', ext_calls = calls'\<rparr>)))))"

section \<open>trackers/ball\_tracker.py: interpolate\_ball\_positions\<close>

text \<open>
  The function hands the boxes to pandas. A cell of the DataFrame is a float or NaN
  (\<open>None\<close>); the entries it returns hold such cells, since \<open>to_numpy().tolist()\<close> passes
  NaN on.
\<close>

type_synonym cell = "real option"
type_synonym nan_entry = "(int, (string, cell list) py_dict) py_dict"

text \<open>
  \<open>pd.DataFrame(rows, columns=['x1', 'y1', 'x2', 'y2'])\<close> on a list of lists: no rows give
  an empty frame; otherwise the rows are padded with NaN to the longest row, and a
  width other than the four columns passed raises ValueError ("4 columns passed,
  passed data had 0 columns" when every row is empty).
\<close>

definition data_frame_width :: nat where
  "data_frame_width = 4"

definition data_frame :: "real list list \<Rightarrow> py_error + cell list list" where
  "data_frame rows =
     (if rows = [] then Inr []
      else if fold max (map length rows) 0 \<noteq> data_frame_width then Inl ValueError
      else Inr (map (\<lambda>r. map Some r @ replicate (data_frame_width - length r) None) rows))"

definition df_columns :: "cell list list \<Rightarrow> cell list list" where
  "df_columns df = map (\<lambda>c. map (\<lambda>row. row ! c) df) [0..<data_frame_width]"

definition df_rows :: "nat \<Rightarrow> cell list list \<Rightarrow> cell list list" where
  "df_rows n cols = map (\<lambda>i. map (\<lambda>col. col ! i) cols) [0..<n]"

text \<open>
  \<open>DataFrame.interpolate()\<close> (linear, forward) on one column: NaNs before the first
  valid value stay; a run of \<open>n\<close> NaNs between \<open>a\<close> and \<open>b\<close> takes the values
  \<open>a + (b - a) * k / (n + 1)\<close>; NaNs after the last valid value repeat it.
  \<open>interp_acc a n\<close> has seen the value \<open>a\<close> and then \<open>n\<close> NaNs.
\<close>

fun interp_acc :: "real \<Rightarrow> nat \<Rightarrow> cell list \<Rightarrow> cell list" where
  "interp_acc a n [] = replicate n (Some a)"
| "interp_acc a n (None # xs) = interp_acc a (Suc n) xs"
| "interp_acc a n (Some b # xs) =
     map (\<lambda>k. Some (a + (b - a) * real k / real (Suc n))) [1..<Suc n] @ Some b # interp_acc b 0 xs"

fun interpolate_col :: "cell list \<Rightarrow> cell list" where
  "interpolate_col [] = []"
| "interpolate_col (None # xs) = None # interpolate_col xs"
| "interpolate_col (Some a # xs) = Some a # interp_acc a 0 xs"

text \<open>\<open>DataFrame.bfill()\<close> on one column: a NaN takes the next valid value below it, if any.\<close>

fun bfill_col :: "cell list \<Rightarrow> cell list" where
  "bfill_col [] = []"
| "bfill_col (Some a # xs) = Some a # bfill_col xs"
| "bfill_col (None # xs) = (case bfill_col xs of [] \<Rightarrow> [None] | y # ys \<Rightarrow> y # y # ys)"

definition interpolate_ball_positions :: "track_entry list \<Rightarrow> py_error + nan_entry list" where
  "interpolate_ball_positions ball_positions =
     (let rows = map box_of ball_positions in
      case data_frame rows of
        Inl e \<Rightarrow> Inl e
      | Inr df_ball_positions \<Rightarrow>
          (let interpolated = map interpolate_col (df_columns df_ball_positions);
               filled = map bfill_col interpolated
           in Inr (map (\<lambda>x. [(1, [(''bbox'', x)])]) (df_rows (length df_ball_positions) filled))))"

text \<open>Column \<open>c\<close> of the DataFrame of a sequence whose boxes are empty or have four coordinates.\<close>

definition ball_column :: "nat \<Rightarrow> track_entry list \<Rightarrow> cell list" where
  "ball_column c ball_positions =
     map (\<lambda>e. if box_of e = [] then None else Some (box_of e ! c)) ball_positions"


section \<open>Verification: outlier rejection\<close>

lemma length_take2: "a \<noteq> [] \<Longrightarrow> length (take 2 a) = 1 \<or> length (take 2 a) = 2"
  by (cases a) (auto simp: le_Suc_eq)

lemma np_norm_diff_total:
  assumes "a \<noteq> []" "b \<noteq> []"
  shows "\<exists>d. np_norm_diff (take 2 a) (take 2 b) = Inr d"
  using length_take2[OF assms(1)] length_take2[OF assms(2)]
  unfolding np_norm_diff_def by auto

lemma np_norm_diff_corner:
  assumes "2 \<le> length a" "2 \<le> length b"
  shows "np_norm_diff (take 2 a) (take 2 b) = Inr (corner_distance a b)"
proof -
  obtain a0 a1 as where a: "a = a0 # a1 # as" using assms(1)
    by (auto simp: Suc_le_length_iff numeral_2_eq_2)
  obtain b0 b1 bs where b: "b = b0 # b1 # bs" using assms(2)
    by (auto simp: Suc_le_length_iff numeral_2_eq_2)
  show ?thesis by (simp add: a b np_norm_diff_def corner_distance_def numeral_2_eq_2)
qed

lemma box_of_Nil: "box_of [] = []"
  by (simp add: box_of_def dict_get_def)

lemma box_of_ball_entry: "box_of (ball_entry b) = b"
  by (simp add: box_of_def dict_get_def ball_entry_def)

lemma rwd_body_cases:
  assumes "i < length bp"
    and "lg = - 1 \<or> (0 \<le> lg \<and> nat lg < length bp \<and> box_of (bp ! nat lg) \<noteq> [])"
  obtains
    (skip) "box_of (bp ! i) = []" "rwd_body i (bp, lg) = Inr (bp, lg)"
  | (first) "box_of (bp ! i) \<noteq> []" "lg = - 1" "rwd_body i (bp, lg) = Inr (bp, int i)"
  | (discard) d where "box_of (bp ! i) \<noteq> []" "lg \<noteq> - 1"
      "np_norm_diff (take 2 (box_of (bp ! nat lg))) (take 2 (box_of (bp ! i))) = Inr d"
      "d > 25 * (real i - real_of_int lg)" "rwd_body i (bp, lg) = Inr (bp[i := []], lg)"
  | (accept) d where "box_of (bp ! i) \<noteq> []" "lg \<noteq> - 1"
      "np_norm_diff (take 2 (box_of (bp ! nat lg))) (take 2 (box_of (bp ! i))) = Inr d"
      "\<not> d > 25 * (real i - real_of_int lg)" "rwd_body i (bp, lg) = Inr (bp, int i)"
proof (cases "box_of (bp ! i) = []")
  case True
  then have "rwd_body i (bp, lg) = Inr (bp, lg)" by (simp add: rwd_body_def)
  with True show ?thesis by (rule skip)
next
  case ne: False
  show ?thesis
  proof (cases "lg = - 1")
    case True
    with ne have "rwd_body i (bp, lg) = Inr (bp, int i)" by (simp add: rwd_body_def)
    with ne True show ?thesis by (rule first)
  next
    case False
    with assms(2) have "box_of (bp ! nat lg) \<noteq> []" by simp
    from np_norm_diff_total[OF this ne] obtain d where
      d: "np_norm_diff (take 2 (box_of (bp ! nat lg))) (take 2 (box_of (bp ! i))) = Inr d" ..
    show ?thesis
    proof (cases "d > 25 * (real i - real_of_int lg)")
      case True
      with ne False d have "rwd_body i (bp, lg) = Inr (bp[i := []], lg)"
        by (simp add: rwd_body_def maximum_allowed_distance_def Let_def)
      with ne False d True show ?thesis by (rule discard)
    next
      case nd: False
      with ne False d have "rwd_body i (bp, lg) = Inr (bp, int i)"
        by (simp add: rwd_body_def maximum_allowed_distance_def Let_def)
      with ne False d nd show ?thesis by (rule accept)
    qed
  qed
qed


lemma rwd_loop_frame:
  assumes "length bp = n" "i \<le> n"
    and "lg = - 1 \<or> (0 \<le> lg \<and> nat lg < i \<and> box_of (bp ! nat lg) \<noteq> [])"
  shows "\<exists>bp' lg'. for_each [i..<n] rwd_body (bp, lg) = Inr (bp', lg') \<and> length bp' = n \<and>
           (\<forall>j<n. bp' ! j = bp ! j \<or>
              (i \<le> j \<and> box_of (bp ! j) \<noteq> [] \<and> bp' ! j = [] \<and>
               (lg = - 1 \<longrightarrow> (\<exists>m. i \<le> m \<and> m < j \<and> box_of (bp ! m) \<noteq> []))))"
  using assms
proof (induction "n - i" arbitrary: i bp lg)
  case 0
  then show ?case by simp
next
  case (Suc k)
  then have i: "i < n" and len: "i < length bp" by simp_all
  have inv: "lg = - 1 \<or> (0 \<le> lg \<and> nat lg < length bp \<and> box_of (bp ! nat lg) \<noteq> [])"
    using Suc.prems len by auto
  have upt: "[i..<n] = i # [Suc i..<n]" using i by (simp add: upt_conv_Cons)
  have k: "k = n - Suc i" using Suc.hyps(2) by simp
  from len inv show ?case
  proof (cases rule: rwd_body_cases)
    case skip
    have "lg = - 1 \<or> (0 \<le> lg \<and> nat lg < Suc i \<and> box_of (bp ! nat lg) \<noteq> [])"
      using Suc.prems(3) by auto
    from Suc.hyps(1)[OF k Suc.prems(1) _ this] i obtain bp' lg' where
      r: "for_each [Suc i..<n] rwd_body (bp, lg) = Inr (bp', lg')" "length bp' = n"
      and f: "\<forall>j<n. bp' ! j = bp ! j \<or>
              (Suc i \<le> j \<and> box_of (bp ! j) \<noteq> [] \<and> bp' ! j = [] \<and>
               (lg = - 1 \<longrightarrow> (\<exists>m. Suc i \<le> m \<and> m < j \<and> box_of (bp ! m) \<noteq> [])))"
      by auto
    have "for_each [i..<n] rwd_body (bp, lg) = Inr (bp', lg')"
      by (simp add: upt skip(2) r(1))
    moreover have "\<forall>j<n. bp' ! j = bp ! j \<or>
              (i \<le> j \<and> box_of (bp ! j) \<noteq> [] \<and> bp' ! j = [] \<and>
               (lg = - 1 \<longrightarrow> (\<exists>m. i \<le> m \<and> m < j \<and> box_of (bp ! m) \<noteq> [])))"
      using f by (meson Suc_leD)
    ultimately show ?thesis using r(2) by blast
  next
    case first
    have "int i = - 1 \<or> (0 \<le> int i \<and> nat (int i) < Suc i \<and> box_of (bp ! nat (int i)) \<noteq> [])"
      using first(1) by simp
    from Suc.hyps(1)[OF k Suc.prems(1) _ this] i obtain bp' lg' where
      r: "for_each [Suc i..<n] rwd_body (bp, int i) = Inr (bp', lg')" "length bp' = n"
      and f: "\<forall>j<n. bp' ! j = bp ! j \<or>
              (Suc i \<le> j \<and> box_of (bp ! j) \<noteq> [] \<and> bp' ! j = [])"
      by auto
    have "for_each [i..<n] rwd_body (bp, lg) = Inr (bp', lg')"
      by (simp add: upt first(3) r(1))
    moreover have "\<forall>j<n. bp' ! j = bp ! j \<or>
              (i \<le> j \<and> box_of (bp ! j) \<noteq> [] \<and> bp' ! j = [] \<and>
               (lg = - 1 \<longrightarrow> (\<exists>m. i \<le> m \<and> m < j \<and> box_of (bp ! m) \<noteq> [])))"
    proof (intro allI impI)
      fix j assume "j < n"
      with f have "bp' ! j = bp ! j \<or> (Suc i \<le> j \<and> box_of (bp ! j) \<noteq> [] \<and> bp' ! j = [])"
        by blast
      then show "bp' ! j = bp ! j \<or>
              (i \<le> j \<and> box_of (bp ! j) \<noteq> [] \<and> bp' ! j = [] \<and>
               (lg = - 1 \<longrightarrow> (\<exists>m. i \<le> m \<and> m < j \<and> box_of (bp ! m) \<noteq> [])))"
        using first(1) by (auto intro: exI[of _ i])
    qed
    ultimately show ?thesis using r(2) by blast
  next
    case (discard d)
    let ?bp = "bp[i := []]"
    have lg: "nat lg < i" using discard(2) Suc.prems(3) by auto
    have "lg = - 1 \<or> (0 \<le> lg \<and> nat lg < Suc i \<and> box_of (?bp ! nat lg) \<noteq> [])"
      using Suc.prems(3) lg by auto
    moreover have "length ?bp = n" using Suc.prems(1) by simp
    ultimately have "\<exists>bp' lg'. for_each [Suc i..<n] rwd_body (?bp, lg) = Inr (bp', lg') \<and> length bp' = n \<and>
           (\<forall>j<n. bp' ! j = ?bp ! j \<or>
              (Suc i \<le> j \<and> box_of (?bp ! j) \<noteq> [] \<and> bp' ! j = [] \<and>
               (lg = - 1 \<longrightarrow> (\<exists>m. Suc i \<le> m \<and> m < j \<and> box_of (?bp ! m) \<noteq> []))))"
      using Suc.hyps(1)[OF k] i by simp
    then obtain bp' lg' where
      r: "for_each [Suc i..<n] rwd_body (?bp, lg) = Inr (bp', lg')" "length bp' = n"
      and f: "\<forall>j<n. bp' ! j = ?bp ! j \<or>
              (Suc i \<le> j \<and> box_of (?bp ! j) \<noteq> [] \<and> bp' ! j = [])"
      by auto
    have "for_each [i..<n] rwd_body (bp, lg) = Inr (bp', lg')"
      by (simp add: upt discard(5) r(1))
    moreover have "\<forall>j<n. bp' ! j = bp ! j \<or>
              (i \<le> j \<and> box_of (bp ! j) \<noteq> [] \<and> bp' ! j = [] \<and>
               (lg = - 1 \<longrightarrow> (\<exists>m. i \<le> m \<and> m < j \<and> box_of (bp ! m) \<noteq> [])))"
    proof (intro allI impI)
      fix j assume j: "j < n"
      with f have c: "bp' ! j = ?bp ! j \<or> (Suc i \<le> j \<and> box_of (?bp ! j) \<noteq> [] \<and> bp' ! j = [])"
        by blast
      show "bp' ! j = bp ! j \<or>
              (i \<le> j \<and> box_of (bp ! j) \<noteq> [] \<and> bp' ! j = [] \<and>
               (lg = - 1 \<longrightarrow> (\<exists>m. i \<le> m \<and> m < j \<and> box_of (bp ! m) \<noteq> [])))"
      proof (cases "j = i")
        case True
        with c len have "bp' ! j = []" by auto
        with True discard(1,2) show ?thesis by simp
      next
        case False
        with c discard(2) show ?thesis by auto
      qed
    qed
    ultimately show ?thesis using r(2) by blast
  next
    case (accept d)
    have "int i = - 1 \<or> (0 \<le> int i \<and> nat (int i) < Suc i \<and> box_of (bp ! nat (int i)) \<noteq> [])"
      using accept(1) by simp
    from Suc.hyps(1)[OF k Suc.prems(1) _ this] i obtain bp' lg' where
      r: "for_each [Suc i..<n] rwd_body (bp, int i) = Inr (bp', lg')" "length bp' = n"
      and f: "\<forall>j<n. bp' ! j = bp ! j \<or>
              (Suc i \<le> j \<and> box_of (bp ! j) \<noteq> [] \<and> bp' ! j = [])"
      by auto
    have "for_each [i..<n] rwd_body (bp, lg) = Inr (bp', lg')"
      by (simp add: upt accept(5) r(1))
    moreover have "\<forall>j<n. bp' ! j = bp ! j \<or>
              (i \<le> j \<and> box_of (bp ! j) \<noteq> [] \<and> bp' ! j = [] \<and>
               (lg = - 1 \<longrightarrow> (\<exists>m. i \<le> m \<and> m < j \<and> box_of (bp ! m) \<noteq> [])))"
      using f accept(2) by (meson Suc_leD)
    ultimately show ?thesis using r(2) by blast
  qed
qed


lemma rwd_loop_refines:
  assumes "length bp = n" "i \<le> n"
    and "lg = - 1 \<or> (0 \<le> lg \<and> nat lg < i \<and> box_of (bp ! nat lg) \<noteq> [])"
    and "\<forall>j<n. box_of (bp ! j) = [] \<or> 2 \<le> length (box_of (bp ! j))"
  shows "\<exists>bp' lg'. for_each [i..<n] rwd_body (bp, lg) = Inr (bp', lg') \<and>
           map box_of (drop i bp') =
             outlier_rejection i (if lg = - 1 then None else Some (nat lg, box_of (bp ! nat lg)))
               (map box_of (drop i bp))"
  using assms
proof (induction "n - i" arbitrary: i bp lg)
  case 0
  then show ?case by simp
next
  case (Suc k)
  then have i: "i < n" and len: "i < length bp" by simp_all
  have inv: "lg = - 1 \<or> (0 \<le> lg \<and> nat lg < length bp \<and> box_of (bp ! nat lg) \<noteq> [])"
    using Suc.prems len by auto
  have upt: "[i..<n] = i # [Suc i..<n]" using i by (simp add: upt_conv_Cons)
  have k: "k = n - Suc i" using Suc.hyps(2) by simp
  have dr: "drop i bp = bp ! i # drop (Suc i) bp"
    using len by (simp add: Cons_nth_drop_Suc)
  \<comment> \<open>what the rest of the loop does from any state reached after step \<open>i\<close>\<close>
  have rest: "\<exists>bp' lg'. for_each [Suc i..<n] rwd_body (bp2, lg2) = Inr (bp', lg') \<and>
           bp' ! i = bp2 ! i \<and> length bp' = n \<and>
           map box_of (drop (Suc i) bp') =
             outlier_rejection (Suc i)
               (if lg2 = - 1 then None else Some (nat lg2, box_of (bp2 ! nat lg2)))
               (map box_of (drop (Suc i) bp2))"
    if l2: "length bp2 = n"
      and i2: "lg2 = - 1 \<or> (0 \<le> lg2 \<and> nat lg2 < Suc i \<and> box_of (bp2 ! nat lg2) \<noteq> [])"
      and w2: "\<forall>j<n. box_of (bp2 ! j) = [] \<or> 2 \<le> length (box_of (bp2 ! j))"
    for bp2 lg2
  proof -
    have s: "Suc i \<le> n" using i by simp
    from Suc.hyps(1)[OF k l2 s i2 w2] obtain bp' lg' where
      a: "for_each [Suc i..<n] rwd_body (bp2, lg2) = Inr (bp', lg')"
      and b: "map box_of (drop (Suc i) bp') =
             outlier_rejection (Suc i)
               (if lg2 = - 1 then None else Some (nat lg2, box_of (bp2 ! nat lg2)))
               (map box_of (drop (Suc i) bp2))"
      by blast
    from rwd_loop_frame[OF l2 s i2] a have "length bp' = n"
      and "bp' ! i = bp2 ! i \<or> Suc i \<le> i"
      using i by auto
    with a b show ?thesis by auto
  qed
  from len inv show ?case
  proof (cases rule: rwd_body_cases)
    case skip
    have "lg = - 1 \<or> (0 \<le> lg \<and> nat lg < Suc i \<and> box_of (bp ! nat lg) \<noteq> [])"
      using Suc.prems(3) by auto
    from rest[OF Suc.prems(1) this Suc.prems(4)] obtain bp' lg' where
      r: "for_each [Suc i..<n] rwd_body (bp, lg) = Inr (bp', lg')" "bp' ! i = bp ! i"
        "length bp' = n"
        "map box_of (drop (Suc i) bp') =
             outlier_rejection (Suc i)
               (if lg = - 1 then None else Some (nat lg, box_of (bp ! nat lg)))
               (map box_of (drop (Suc i) bp))"
      by blast
    have "drop i bp' = bp' ! i # drop (Suc i) bp'"
      using r(3) i by (simp add: Cons_nth_drop_Suc)
    then have "map box_of (drop i bp') =
             outlier_rejection i (if lg = - 1 then None else Some (nat lg, box_of (bp ! nat lg)))
               (map box_of (drop i bp))"
      using r(2,4) skip(1) by (simp add: dr)
    moreover have "for_each [i..<n] rwd_body (bp, lg) = Inr (bp', lg')"
      by (simp add: upt skip(2) r(1))
    ultimately show ?thesis by blast
  next
    case first
    have "int i = - 1 \<or> (0 \<le> int i \<and> nat (int i) < Suc i \<and> box_of (bp ! nat (int i)) \<noteq> [])"
      using first(1) by simp
    from rest[OF Suc.prems(1) this Suc.prems(4)] obtain bp' lg' where
      r: "for_each [Suc i..<n] rwd_body (bp, int i) = Inr (bp', lg')" "bp' ! i = bp ! i"
        "length bp' = n"
        "map box_of (drop (Suc i) bp') =
             outlier_rejection (Suc i) (Some (i, box_of (bp ! i)))
               (map box_of (drop (Suc i) bp))"
      by auto
    have "drop i bp' = bp' ! i # drop (Suc i) bp'"
      using r(3) i by (simp add: Cons_nth_drop_Suc)
    then have "map box_of (drop i bp') =
             outlier_rejection i (if lg = - 1 then None else Some (nat lg, box_of (bp ! nat lg)))
               (map box_of (drop i bp))"
      using r(2,4) first(1,2) by (simp add: dr)
    moreover have "for_each [i..<n] rwd_body (bp, lg) = Inr (bp', lg')"
      by (simp add: upt first(3) r(1))
    ultimately show ?thesis by blast
  next
    case (discard d)
    let ?bp = "bp[i := []]"
    have lg: "0 \<le> lg" "nat lg < i" "box_of (bp ! nat lg) \<noteq> []"
      using discard(2) Suc.prems(3) by auto
    have wl: "2 \<le> length (box_of (bp ! nat lg))" "2 \<le> length (box_of (bp ! i))"
      using Suc.prems(4) lg i discard(1) by (auto dest: spec[of _ "nat lg"] spec[of _ i])
    have d: "d = corner_distance (box_of (bp ! nat lg)) (box_of (bp ! i))"
      using np_norm_diff_corner[OF wl] discard(3) by simp
    have gap: "real i - real_of_int lg = real (i - nat lg)" using lg by simp
    have l2: "length ?bp = n" using Suc.prems(1) by simp
    have i2: "lg = - 1 \<or> (0 \<le> lg \<and> nat lg < Suc i \<and> box_of (?bp ! nat lg) \<noteq> [])"
      using lg by simp
    have w2: "\<forall>j<n. box_of (?bp ! j) = [] \<or> 2 \<le> length (box_of (?bp ! j))"
      using Suc.prems(4) len by (auto simp: nth_list_update box_of_Nil)
    from rest[OF l2 i2 w2] obtain bp' lg' where
      r: "for_each [Suc i..<n] rwd_body (?bp, lg) = Inr (bp', lg')" "bp' ! i = ?bp ! i"
        "length bp' = n"
        "map box_of (drop (Suc i) bp') =
             outlier_rejection (Suc i) (Some (nat lg, box_of (bp ! nat lg)))
               (map box_of (drop (Suc i) bp))"
      using discard(2) lg by auto
    have "drop i bp' = bp' ! i # drop (Suc i) bp'"
      using r(3) i by (simp add: Cons_nth_drop_Suc)
    then have "map box_of (drop i bp') =
             outlier_rejection i (if lg = - 1 then None else Some (nat lg, box_of (bp ! nat lg)))
               (map box_of (drop i bp))"
      using r(2,4) discard(1,2,4) len by (simp add: dr d gap box_of_Nil)
    moreover have "for_each [i..<n] rwd_body (bp, lg) = Inr (bp', lg')"
      by (simp add: upt discard(5) r(1))
    ultimately show ?thesis by blast
  next
    case (accept d)
    have lg: "0 \<le> lg" "nat lg < i" "box_of (bp ! nat lg) \<noteq> []"
      using accept(2) Suc.prems(3) by auto
    have wl: "2 \<le> length (box_of (bp ! nat lg))" "2 \<le> length (box_of (bp ! i))"
      using Suc.prems(4) lg i accept(1) by (auto dest: spec[of _ "nat lg"] spec[of _ i])
    have d: "d = corner_distance (box_of (bp ! nat lg)) (box_of (bp ! i))"
      using np_norm_diff_corner[OF wl] accept(3) by simp
    have gap: "real i - real_of_int lg = real (i - nat lg)" using lg by simp
    have "int i = - 1 \<or> (0 \<le> int i \<and> nat (int i) < Suc i \<and> box_of (bp ! nat (int i)) \<noteq> [])"
      using accept(1) by simp
    from rest[OF Suc.prems(1) this Suc.prems(4)] obtain bp' lg' where
      r: "for_each [Suc i..<n] rwd_body (bp, int i) = Inr (bp', lg')" "bp' ! i = bp ! i"
        "length bp' = n"
        "map box_of (drop (Suc i) bp') =
             outlier_rejection (Suc i) (Some (i, box_of (bp ! i)))
               (map box_of (drop (Suc i) bp))"
      by auto
    have "drop i bp' = bp' ! i # drop (Suc i) bp'"
      using r(3) i by (simp add: Cons_nth_drop_Suc)
    then have "map box_of (drop i bp') =
             outlier_rejection i (if lg = - 1 then None else Some (nat lg, box_of (bp ! nat lg)))
               (map box_of (drop i bp))"
      using r(2,4) accept(1,2,4) by (simp add: dr d gap)
    moreover have "for_each [i..<n] rwd_body (bp, lg) = Inr (bp', lg')"
      by (simp add: upt accept(5) r(1))
    ultimately show ?thesis by blast
  qed
qed

lemma sqrt_gt_iff: "0 \<le> t \<Longrightarrow> (t < sqrt x) = (t\<^sup>2 < x)"
  using real_sqrt_less_iff[of "t\<^sup>2" x] by simp

lemma norm2: "np_norm_diff [a0, a1] [b0, b1] = Inr (sqrt ((a0 - b0)\<^sup>2 + (a1 - b1)\<^sup>2))"
  by (simp add: np_norm_diff_def)

lemma rwd_example_gap1:
  "remove_wrong_detections
       [ball_entry [0, 0, 10, 10], ball_entry [0, 0, 10, 10],
        ball_entry [1000, 1000, 1010, 1010]]
     = Inr [ball_entry [0, 0, 10, 10], ball_entry [0, 0, 10, 10], []]"
  by (simp add: remove_wrong_detections_def upt_rec rwd_body_def box_of_ball_entry norm2
       maximum_allowed_distance_def sqrt_gt_iff Let_def)

lemma rwd_example_gap40:
  "remove_wrong_detections
       ([ball_entry [0, 0, 10, 10], ball_entry [0, 0, 10, 10]] @ replicate 39 [] @
        [ball_entry [1000, 1000, 1010, 1010]])
     = Inr ([ball_entry [0, 0, 10, 10], ball_entry [0, 0, 10, 10]] @ replicate 39 [] @ [[]])"
  by (simp add: remove_wrong_detections_def upt_rec rwd_body_def box_of_ball_entry box_of_Nil
       norm2 maximum_allowed_distance_def sqrt_gt_iff Let_def nth_append list_update_append)

lemma rwd_example_gap60:
  "remove_wrong_detections
       ([ball_entry [0, 0, 10, 10], ball_entry [0, 0, 10, 10]] @ replicate 59 [] @
        [ball_entry [1000, 1000, 1010, 1010]])
     = Inr ([ball_entry [0, 0, 10, 10], ball_entry [0, 0, 10, 10]] @ replicate 59 [] @
        [ball_entry [1000, 1000, 1010, 1010]])"
  by (simp add: remove_wrong_detections_def upt_rec rwd_body_def box_of_ball_entry box_of_Nil
       norm2 maximum_allowed_distance_def sqrt_gt_iff Let_def nth_append)

text \<open>
  Claim C1. \<open>remove_wrong_detections\<close> is the single forward pass of the specification:
  on every sequence whose boxes have at least the two corner coordinates it succeeds,
  and the boxes it leaves are those of \<open>outlier_rejection\<close> started with no reference
  (\<open>last_good_index = -1\<close>): a box is discarded exactly when its top-left corner is
  farther than \<open>25 * (i - last_good_index)\<close> from the corner of the last accepted box,
  and only an accepted frame becomes the new reference. With boxes at (0,0), (0,0) and
  (1000,1000) the third is discarded (its entry becomes \<open>{}\<close>) at gap 1 and at gap 40,
  and kept at gap 60.
\<close>

theorem remove_wrong_detections_adaptive_threshold:
  "((\<forall>e\<in>set bp. box_of e = [] \<or> 2 \<le> length (box_of e)) \<longrightarrow>
      (\<exists>out. remove_wrong_detections bp = Inr out \<and>
         map box_of out = outlier_rejection 0 None (map box_of bp))) \<and>
   remove_wrong_detections
       [ball_entry [0, 0, 10, 10], ball_entry [0, 0, 10, 10],
        ball_entry [1000, 1000, 1010, 1010]]
     = Inr [ball_entry [0, 0, 10, 10], ball_entry [0, 0, 10, 10], []] \<and>
   remove_wrong_detections
       ([ball_entry [0, 0, 10, 10], ball_entry [0, 0, 10, 10]] @ replicate 39 [] @
        [ball_entry [1000, 1000, 1010, 1010]])
     = Inr ([ball_entry [0, 0, 10, 10], ball_entry [0, 0, 10, 10]] @ replicate 39 [] @ [[]]) \<and>
   remove_wrong_detections
       ([ball_entry [0, 0, 10, 10], ball_entry [0, 0, 10, 10]] @ replicate 59 [] @
        [ball_entry [1000, 1000, 1010, 1010]])
     = Inr ([ball_entry [0, 0, 10, 10], ball_entry [0, 0, 10, 10]] @ replicate 59 [] @
        [ball_entry [1000, 1000, 1010, 1010]])"
proof (intro conjI)
  show "(\<forall>e\<in>set bp. box_of e = [] \<or> 2 \<le> length (box_of e)) \<longrightarrow>
      (\<exists>out. remove_wrong_detections bp = Inr out \<and>
         map box_of out = outlier_rejection 0 None (map box_of bp))"
  proof
  assume wf: "\<forall>e\<in>set bp. box_of e = [] \<or> 2 \<le> length (box_of e)"
  then have "\<forall>j<length bp. box_of (bp ! j) = [] \<or> 2 \<le> length (box_of (bp ! j))"
    by simp
  from rwd_loop_refines[OF refl _ _ this, of 0 "- 1"] obtain bp' lg' where
    "for_each [0..<length bp] rwd_body (bp, - 1) = Inr (bp', lg')"
    "map box_of bp' = outlier_rejection 0 None (map box_of bp)"
    by auto
  then show "\<exists>out. remove_wrong_detections bp = Inr out \<and>
         map box_of out = outlier_rejection 0 None (map box_of bp)"
    by (simp add: remove_wrong_detections_def)
  qed
qed (rule rwd_example_gap1 rwd_example_gap40 rwd_example_gap60)+

theorem remove_wrong_detections_adaptive_threshold_witness:
  "\<exists>out. remove_wrong_detections
            [ball_entry [0, 0, 10, 10], ball_entry [3, 4, 13, 14], ball_entry [500, 4, 510, 14]]
          = Inr out \<and>
     map box_of out = [[0, 0, 10, 10], [3, 4, 13, 14], []]"
proof -
  let ?bp = "[ball_entry [0, 0, 10, 10], ball_entry [3, 4, 13, 14], ball_entry [500, 4, 510, 14]]"
  have wf: "\<forall>e\<in>set ?bp. box_of e = [] \<or> 2 \<le> length (box_of e)"
    by (simp add: box_of_ball_entry)
  have spec: "outlier_rejection 0 None (map box_of ?bp) = [[0, 0, 10, 10], [3, 4, 13, 14], []]"
    by (simp add: box_of_ball_entry corner_distance_def sqrt_gt_iff)
  have "\<exists>out. remove_wrong_detections ?bp = Inr out \<and>
         map box_of out = outlier_rejection 0 None (map box_of ?bp)"
    by (rule remove_wrong_detections_adaptive_threshold[of ?bp, THEN conjunct1, THEN mp, OF wf])
  then show ?thesis unfolding spec .
qed

text \<open>
  Claim C10. \<open>remove_wrong_detections\<close> never fails and returns a list of the same
  length (the caller's list, mutated in place). Every entry is the input entry or the
  empty entry \<open>{}\<close>; an entry with no box, every entry up to and including the first one
  with a box, and every entry whose box survives are the input entries unchanged. A
  discarded frame loses its whole entry, not only the ball's box.
\<close>

theorem remove_wrong_detections_frame:
  "\<exists>out. remove_wrong_detections bp = Inr out \<and> length out = length bp \<and>
     (\<forall>i<length bp.
        (out ! i = bp ! i \<or> out ! i = []) \<and>
        (box_of (bp ! i) = [] \<longrightarrow> out ! i = bp ! i) \<and>
        ((\<forall>j<i. box_of (bp ! j) = []) \<longrightarrow> out ! i = bp ! i) \<and>
        (box_of (out ! i) \<noteq> [] \<longrightarrow> out ! i = bp ! i))"
proof -
  have "\<exists>bp' lg'. for_each [0..<length bp] rwd_body (bp, - 1) = Inr (bp', lg') \<and>
           length bp' = length bp \<and>
           (\<forall>j<length bp. bp' ! j = bp ! j \<or>
              (0 \<le> j \<and> box_of (bp ! j) \<noteq> [] \<and> bp' ! j = [] \<and>
               ((- 1 :: int) = - 1 \<longrightarrow> (\<exists>m. 0 \<le> m \<and> m < j \<and> box_of (bp ! m) \<noteq> []))))"
    by (rule rwd_loop_frame) simp_all
  then obtain bp' lg' where
    r: "for_each [0..<length bp] rwd_body (bp, - 1) = Inr (bp', lg')"
    and l: "length bp' = length bp"
    and f: "\<And>j. j < length bp \<Longrightarrow> bp' ! j = bp ! j \<or>
              (box_of (bp ! j) \<noteq> [] \<and> bp' ! j = [] \<and> (\<exists>m<j. box_of (bp ! m) \<noteq> []))"
    by fastforce
  have out: "remove_wrong_detections bp = Inr bp'"
    by (simp add: remove_wrong_detections_def r)
  have "(bp' ! i = bp ! i \<or> bp' ! i = []) \<and>
        (box_of (bp ! i) = [] \<longrightarrow> bp' ! i = bp ! i) \<and>
        ((\<forall>j<i. box_of (bp ! j) = []) \<longrightarrow> bp' ! i = bp ! i) \<and>
        (box_of (bp' ! i) \<noteq> [] \<longrightarrow> bp' ! i = bp ! i)" if "i < length bp" for i
    using f[OF that] by (auto simp: box_of_Nil)
  then show ?thesis using out l by blast
qed

theorem remove_wrong_detections_frame_witness:
  "\<exists>out. remove_wrong_detections
            [[(2, [(''bbox'', [5, 5, 6, 6])])], ball_entry [0, 0, 10, 10],
             [(1, [(''bbox'', [900, 0, 910, 10])]), (7, [])]] = Inr out \<and>
     length out = 3 \<and> out ! 0 = [(2, [(''bbox'', [5, 5, 6, 6])])] \<and>
     out ! 1 = ball_entry [0, 0, 10, 10] \<and> out ! 2 = []"
proof -
  let ?bp = "[[(2, [(''bbox'', [5, 5, 6, 6])])], ball_entry [0, 0, 10, 10],
             [(1, [(''bbox'', [900, 0, 910, 10])]), (7, [])]]"
  have b0: "box_of (?bp ! 0) = []" by (simp add: box_of_def dict_get_def)
  have b2: "box_of (?bp ! 2) = [900, 0, 910, 10]" by (simp add: box_of_def dict_get_def)
  have ev: "remove_wrong_detections ?bp = Inr (?bp[2 := []])"
    by (simp add: remove_wrong_detections_def upt_rec rwd_body_def norm2 box_of_def
         dict_get_def ball_entry_def maximum_allowed_distance_def sqrt_gt_iff Let_def)
  from remove_wrong_detections_frame[of ?bp] obtain out where
    o: "remove_wrong_detections ?bp = Inr out" and l: "length out = length ?bp"
    and f: "\<And>i. i < length ?bp \<Longrightarrow>
        (out ! i = ?bp ! i \<or> out ! i = []) \<and>
        (box_of (?bp ! i) = [] \<longrightarrow> out ! i = ?bp ! i) \<and>
        ((\<forall>j<i. box_of (?bp ! j) = []) \<longrightarrow> out ! i = ?bp ! i) \<and>
        (box_of (out ! i) \<noteq> [] \<longrightarrow> out ! i = ?bp ! i)"
    by blast
  have "0 < length ?bp" by simp
  from f[OF this] b0 have o0: "out ! 0 = ?bp ! 0" by blast
  have "1 < length ?bp" by simp
  from f[OF this] b0 have o1: "out ! 1 = ?bp ! 1" by (simp add: All_less_Suc)
  have "out = ?bp[2 := []]" using o ev by simp
  then have o2: "out ! 2 = []" by simp
  show ?thesis
    apply (rule exI[of _ out])
    using o l o0 o1 o2 by simp
qed

section \<open>Verification: the pickle cache\<close>

lemma dirname_example_stubs: "os_path_dirname ''stubs/player_track_stubs.pkl'' = ''stubs''"
  by (simp add: os_path_dirname_def)
lemma dirname_bare_filename: "os_path_dirname ''tracks.pkl'' = ''''"
  by (simp add: os_path_dirname_def)
lemma dirname_root: "os_path_dirname ''/tracks.pkl'' = ''/''"
  by (simp add: os_path_dirname_def)
lemma dirname_double_slash: "os_path_dirname ''a/b//c.pkl'' = ''a/b''"
  by (simp add: os_path_dirname_def)

text \<open>
  Claim C6 says that \<open>save_stub(None, object)\<close> is a no-op. The directory is computed
  from the path before the \<open>stub_path is not None\<close> guard is reached, so the call
  raises TypeError for every value and every file system.
\<close>

theorem save_stub_unset_path_raises: "save_stub fs None object = Inl TypeError"
  by (simp add: save_stub_def py_dirname_def)

text \<open>
  Claim C7. \<open>read_stub\<close> returns \<open>None\<close> exactly when reading is disabled, the path is
  unset or nothing exists at the path. When it is enabled and the path holds a pickled
  record, that record is returned as it is (no length or validity check); when the
  file does not unpickle, the error reaches the caller.
\<close>

theorem read_stub_contract:
  "(read_stub fs read_from_stub stub_path = Inr None \<longleftrightarrow>
      (\<not> read_from_stub \<or> (case stub_path of None \<Rightarrow> True | Some p \<Rightarrow> \<not> os_path_exists fs p))) \<and>
   (read_from_stub \<and> stub_path = Some p \<and> p \<noteq> [] \<and> fs p = Some (Pickle_file object) \<longrightarrow>
      read_stub fs read_from_stub stub_path = Inr (Some object)) \<and>
   (read_from_stub \<and> stub_path = Some p \<and> p \<noteq> [] \<and> fs p = Some Garbage_file \<longrightarrow>
      read_stub fs read_from_stub stub_path = Inl UnpicklingError)"
  by (auto simp: read_stub_def os_path_exists_def pickle_load_def split: option.splits node.splits)

theorem read_stub_contract_witness:
  "read_stub [''stubs/t.pkl'' \<mapsto> Pickle_file [ball_entry [0, 0, 1, 1]]] True (Some ''stubs/t.pkl'')
     = Inr (Some [ball_entry [0, 0, 1, 1]]) \<and>
   read_stub [''stubs/t.pkl'' \<mapsto> (Garbage_file :: track_entry list node)] True (Some ''stubs/t.pkl'')
     = Inl UnpicklingError \<and>
   read_stub (Map.empty :: track_entry list filesystem) True (Some ''stubs/t.pkl'') = Inr None"
proof -
  let ?p = "''stubs/t.pkl''"
  let ?v = "[ball_entry [0, 0, 1, 1]]"
  have "read_stub [?p \<mapsto> Pickle_file ?v] True (Some ?p) = Inr (Some ?v)"
    using read_stub_contract[of "[?p \<mapsto> Pickle_file ?v]" True "Some ?p" ?p ?v] by simp
  moreover have "read_stub [?p \<mapsto> (Garbage_file :: track_entry list node)] True (Some ?p)
      = Inl UnpicklingError"
    using read_stub_contract[of "[?p \<mapsto> (Garbage_file :: track_entry list node)]" True "Some ?p" ?p]
    by simp
  moreover have "read_stub (Map.empty :: track_entry list filesystem) True (Some ?p) = Inr None"
    using read_stub_contract[of "Map.empty :: track_entry list filesystem" True "Some ?p"]
    by (simp add: os_path_exists_def)
  ultimately show ?thesis by simp
qed

section \<open>Verification: the per-frame ball choice\<close>

lemma cls_names_inv_aux:
  "map_of (foldl (\<lambda>inv (k, v). AList.update v k inv) acc ns) name =
     (case map_of (map (\<lambda>(k, v). (v, k)) (rev ns)) name of
        Some k \<Rightarrow> Some k | None \<Rightarrow> map_of acc name)"
proof (induction ns arbitrary: acc)
  case Nil
  then show ?case by simp
next
  case (Cons a ns)
  obtain k v where a: "a = (k, v)" by (cases a)
  show ?case
    by (simp add: a Cons.IH update_conv' map_add_def split: option.splits)
qed

lemma cls_names_inv_lookup:
  "map_of (cls_names_inv ns) name = map_of (map (\<lambda>(k, v). (v, k)) (rev ns)) name"
  by (simp add: cls_names_inv_def cls_names_inv_aux split: option.splits)

lemma cls_names_inv_iff:
  assumes "distinct (map fst ns)" "distinct (map snd ns)"
  shows "map_of (cls_names_inv ns) name = Some k \<longleftrightarrow> map_of ns k = Some name"
proof -
  let ?sw = "map (\<lambda>(k, v). (v, k)) (rev ns)"
  have m: "map fst ?sw = rev (map snd ns)"
    by (simp add: rev_map case_prod_unfold comp_def)
  have d: "distinct (map fst ?sw)" unfolding m using assms(2) by simp
  have "map_of ?sw name = Some k \<longleftrightarrow> (name, k) \<in> set ?sw"
    using d by (rule map_of_eq_Some_iff)
  also have "\<dots> \<longleftrightarrow> (k, name) \<in> set ns" by auto
  also have "\<dots> \<longleftrightarrow> map_of ns k = Some name"
    using assms(1) by simp
  finally show ?thesis by (simp add: cls_names_inv_lookup)
qed

lemma ball_select_loop:
  assumes "dict_index (cls_names_inv ns) ''Ball'' = Inr bid"
  shows "for_each ds (ball_select_body ns) (c, m) =
     Inr (case find (\<lambda>d. m < confidence d \<and>
                      list_all (\<lambda>d'. confidence d' \<le> confidence d) (filter (\<lambda>d. class_id d = bid) ds))
                (filter (\<lambda>d. class_id d = bid) ds) of
            None \<Rightarrow> (c, m)
          | Some d \<Rightarrow> (Some (xyxy d), confidence d))"
proof (induction ds arbitrary: c m)
  case Nil
  then show ?case by simp
next
  case (Cons d ds)
  let ?balls = "filter (\<lambda>d. class_id d = bid) ds"
  show ?case
  proof (cases "class_id d = bid")
    case False
    then have "ball_select_body ns d (c, m) = Inr (c, m)"
      by (simp add: ball_select_body_def assms)
    with False show ?thesis by (simp add: Cons.IH)
  next
    case ball: True
    show ?thesis
    proof (cases "m < confidence d")
      case False
      then have b: "ball_select_body ns d (c, m) = Inr (c, m)"
        by (simp add: ball_select_body_def assms ball)
      have "find (\<lambda>x. m < confidence x \<and> list_all (\<lambda>d'. confidence d' \<le> confidence x) (d # ?balls)) ?balls
          = find (\<lambda>x. m < confidence x \<and> list_all (\<lambda>d'. confidence d' \<le> confidence x) ?balls) ?balls"
        using False by (intro find_cong) auto
      with False ball b show ?thesis by (simp add: Cons.IH)
    next
      case True
      then have b: "ball_select_body ns d (c, m) = Inr (Some (xyxy d), confidence d)"
        by (simp add: ball_select_body_def assms ball)
      show ?thesis
      proof (cases "list_all (\<lambda>d'. confidence d' \<le> confidence d) ?balls")
        case top: True
        then have "find (\<lambda>x. confidence d < confidence x \<and>
                     list_all (\<lambda>d'. confidence d' \<le> confidence x) ?balls) ?balls = None"
          by (auto simp: find_None_iff list_all_iff)
        with True ball b top show ?thesis by (simp add: Cons.IH)
      next
        case False
        then obtain y where y: "y \<in> set ?balls" "confidence d < confidence y"
          by (auto simp: list_all_iff not_le)
        have "find (\<lambda>x. m < confidence x \<and> list_all (\<lambda>d'. confidence d' \<le> confidence x) (d # ?balls)) ?balls
          = find (\<lambda>x. confidence d < confidence x \<and> list_all (\<lambda>d'. confidence d' \<le> confidence x) ?balls) ?balls"
        proof (intro find_cong refl)
          fix x assume "x \<in> set ?balls"
          show "(m < confidence x \<and> list_all (\<lambda>d'. confidence d' \<le> confidence x) (d # ?balls))
             = (confidence d < confidence x \<and> list_all (\<lambda>d'. confidence d' \<le> confidence x) ?balls)"
            using y True unfolding list_all_iff by fastforce
        qed
        moreover have "find (\<lambda>x. confidence d < confidence x \<and>
             list_all (\<lambda>d'. confidence d' \<le> confidence x) ?balls) ?balls \<noteq> None"
        proof -
          obtain z where z: "z \<in> set ?balls" "\<forall>x\<in>set ?balls. confidence x \<le> confidence z"
          proof -
            have "finite (confidence ` set ?balls)" "confidence ` set ?balls \<noteq> {}"
              using y by auto
            then have "Max (confidence ` set ?balls) \<in> confidence ` set ?balls"
              by (rule Max_in)
            then obtain z where "z \<in> set ?balls" "confidence z = Max (confidence ` set ?balls)"
              by auto
            then show ?thesis using that by (metis List.finite_set Max_ge finite_imageI imageI)
          qed
          then have "confidence d < confidence z" using y by force
          with z show ?thesis by (auto simp: find_None_iff list_all_iff)
        qed
        ultimately show ?thesis using True ball b False by (auto simp: Cons.IH)
      qed
    qed
  qed
qed

text \<open>
  Claim C8. For a frame whose names table is a dictionary with each class name once and
  with a class \<open>Ball\<close>, and whose detections have positive confidence (the detector is
  called with the floor 0.5), the entry of the frame holds exactly the first
  most-confident detection among those labelled \<open>Ball\<close>, under the identity 1;
  detections of other classes never count, whatever their confidence; with no ball
  detection the entry is empty.
\<close>

theorem ball_frame_tracks_selects:
  assumes "distinct (map fst (names det))" and "distinct (map snd (names det))"
    and "''Ball'' \<in> snd ` set (names det)"
    and "\<forall>d\<in>set (boxes det). 0 < confidence d"
  shows "ball_frame_tracks det =
     Inr (case first_most_confident (filter (is_ball (names det)) (boxes det)) of
            None \<Rightarrow> []
          | Some d \<Rightarrow> ball_entry (xyxy d))"
proof -
  let ?ns = "names det"
  from assms(3) obtain bid where "(bid, ''Ball'') \<in> set ?ns" by force
  with assms(1) have nb: "map_of ?ns bid = Some ''Ball''" by simp
  then have inv: "map_of (cls_names_inv ?ns) ''Ball'' = Some bid"
    using cls_names_inv_iff[OF assms(1,2)] by simp
  then have idx: "dict_index (cls_names_inv ?ns) ''Ball'' = Inr bid"
    by (simp add: dict_index_def)
  have same: "class_id d = bid \<longleftrightarrow> is_ball ?ns d" for d
  proof -
    have "is_ball ?ns d \<longleftrightarrow> map_of (cls_names_inv ?ns) ''Ball'' = Some (class_id d)"
      unfolding is_ball_def using cls_names_inv_iff[OF assms(1,2)] by simp
    then show ?thesis using inv by auto
  qed
  let ?balls = "filter (is_ball ?ns) (boxes det)"
  have f: "filter (\<lambda>d. class_id d = bid) (boxes det) = ?balls"
    by (rule filter_cong) (simp_all add: same)
  have pos: "find (\<lambda>d. 0 < confidence d \<and> list_all (\<lambda>d'. confidence d' \<le> confidence d) ?balls) ?balls
      = first_most_confident ?balls"
    unfolding first_most_confident_def using assms(4) by (intro find_cong) auto
  have "for_each (boxes det) (ball_select_body ?ns) (None, 0) =
      Inr (case first_most_confident ?balls of
             None \<Rightarrow> (None, 0) | Some d \<Rightarrow> (Some (xyxy d), confidence d))"
    unfolding ball_select_loop[OF idx] f pos ..
  then show ?thesis
    by (simp add: ball_frame_tracks_def ball_entry_def split: option.splits)
qed

theorem ball_frame_tracks_selects_witness:
  "ball_frame_tracks
     \<lparr>names = [(0, ''Ball''), (1, ''Player'')],
      boxes = [\<lparr>xyxy = [1, 1, 2, 2], confidence = 0.4, class_id = 0, tracker_id = 0\<rparr>,
               \<lparr>xyxy = [5, 5, 9, 9], confidence = 0.99, class_id = 1, tracker_id = 0\<rparr>,
               \<lparr>xyxy = [3, 3, 4, 4], confidence = 0.9, class_id = 0, tracker_id = 0\<rparr>,
               \<lparr>xyxy = [7, 7, 8, 8], confidence = 0.9, class_id = 0, tracker_id = 0\<rparr>]\<rparr>
   = Inr (ball_entry [3, 3, 4, 4])"
proof -
  let ?det = "\<lparr>names = [(0, ''Ball''), (1, ''Player'')],
      boxes = [\<lparr>xyxy = [1, 1, 2, 2], confidence = 0.4, class_id = 0, tracker_id = 0\<rparr>,
               \<lparr>xyxy = [5, 5, 9, 9], confidence = 0.99, class_id = 1, tracker_id = 0\<rparr>,
               \<lparr>xyxy = [3, 3, 4, 4], confidence = 0.9, class_id = 0, tracker_id = 0\<rparr>,
               \<lparr>xyxy = [7, 7, 8, 8], confidence = 0.9, class_id = 0, tracker_id = 0\<rparr>]\<rparr>"
  have "ball_frame_tracks ?det =
     Inr (case first_most_confident (filter (is_ball (names ?det)) (boxes ?det)) of
            None \<Rightarrow> []
          | Some d \<Rightarrow> ball_entry (xyxy d))"
    by (rule ball_frame_tracks_selects) simp_all
  then show ?thesis
    by (simp add: first_most_confident_def is_ball_def)
qed

section \<open>Verification: get\_object\_tracks\<close>

text \<open>
  Claim C4. When the cache load yields a sequence as long as the frame list, both
  \<open>get_object_tracks\<close> return that sequence unchanged and leave the world as it was:
  no detector or tracker call is logged, the tracker state is untouched and no file
  is written.
\<close>

theorem get_object_tracks_cache_hit:
  assumes "read_stub (fsys w) read_from_stub stub_path = Inr (Some tracks)"
    and "length tracks = length frames"
  shows "ball_get_object_tracks model_predict w frames read_from_stub stub_path = Inr (tracks, w) \<and>
    player_get_object_tracks model_predict tracker_update ts w frames read_from_stub stub_path
      = Inr (tracks, ts, w)"
  using assms
  by (simp add: ball_get_object_tracks_def player_get_object_tracks_def valid_cache_def)

theorem get_object_tracks_cache_hit_witness:
  "ball_get_object_tracks (\<lambda>fs. []) 
      \<lparr>fsys = [''stubs/ball.pkl'' \<mapsto> Pickle_file [ball_entry [0, 0, 1, 1]]], ext_calls = []\<rparr>
      [0 :: nat] True (Some ''stubs/ball.pkl'')
    = Inr ([ball_entry [0, 0, 1, 1]],
        \<lparr>fsys = [''stubs/ball.pkl'' \<mapsto> Pickle_file [ball_entry [0, 0, 1, 1]]], ext_calls = []\<rparr>) \<and>
   player_get_object_tracks (\<lambda>fs. []) (\<lambda>ts ds. (ts, ds)) ()
      \<lparr>fsys = [''stubs/ball.pkl'' \<mapsto> Pickle_file [ball_entry [0, 0, 1, 1]]], ext_calls = []\<rparr>
      [0 :: nat] True (Some ''stubs/ball.pkl'')
    = Inr ([ball_entry [0, 0, 1, 1]], (),
        \<lparr>fsys = [''stubs/ball.pkl'' \<mapsto> Pickle_file [ball_entry [0, 0, 1, 1]]], ext_calls = []\<rparr>)"
proof -
  let ?w = "\<lparr>fsys = [''stubs/ball.pkl'' \<mapsto> Pickle_file [ball_entry [0, 0, 1, 1]]], ext_calls = []\<rparr>"
  have r: "read_stub (fsys ?w) True (Some ''stubs/ball.pkl'') = Inr (Some [ball_entry [0, 0, 1, 1]])"
    by (simp add: read_stub_def os_path_exists_def pickle_load_def)
  have l: "length [ball_entry [0, 0, 1, 1]] = length [0 :: nat]" by simp
  show ?thesis by (rule get_object_tracks_cache_hit[OF r l])
qed

text \<open>
  Claim C5 says that a cache of another length is discarded, recomputed and persisted
  at the cache path. With the cache in the working directory under a bare file name,
  the recomputation ends in \<open>save_stub\<close>, where \<open>os.path.dirname\<close> is the empty string,
  which does not exist, and \<open>os.makedirs('')\<close> raises FileNotFoundError: nothing is
  persisted and nothing is returned.
\<close>

theorem get_object_tracks_stale_cache_bare_filename:
  "ball_get_object_tracks (map (\<lambda>f. \<lparr>names = [(0, ''Ball'')], boxes = []\<rparr>))
      \<lparr>fsys = [''tracks.pkl'' \<mapsto> Pickle_file []], ext_calls = []\<rparr>
      [0 :: nat] True (Some ''tracks.pkl'')
    = Inl FileNotFoundError \<and>
   player_get_object_tracks (map (\<lambda>f. \<lparr>names = [(0, ''Player'')], boxes = []\<rparr>))
      (\<lambda>ts ds. (ts, ds)) ()
      \<lparr>fsys = [''tracks.pkl'' \<mapsto> Pickle_file []], ext_calls = []\<rparr>
      [0 :: nat] True (Some ''tracks.pkl'')
    = Inl FileNotFoundError"
  by (simp add: ball_get_object_tracks_def player_get_object_tracks_def read_stub_def
      os_path_exists_def pickle_load_def valid_cache_def detect_frames_def range_step_def
      batch_size_def ball_frame_tracks_def player_frame_body_def save_stub_def py_dirname_def
      os_path_dirname_def os_makedirs_def)

section \<open>Verification: the team memo\<close>

lemma team_items_loop:
  assumes "f < length video_frames"
    and "\<forall>it\<in>set its. map_of (snd it) ''bbox'' \<noteq> None"
  shows "\<exists>entry' memo' cs.
     for_each its (team_item_body gpc t1 video_frames f) (entry, memo, calls)
       = Inr (entry', memo', calls @ cs) \<and>
     fst ` set memo' = fst ` set memo \<union> fst ` set its \<and>
     (\<forall>g pid. count_list cs (Classify g pid) =
        (if g = f \<and> pid \<in> fst ` set its \<and> pid \<notin> fst ` set memo then 1 else 0))"
  using assms(2)
proof (induction its arbitrary: entry memo calls)
  case Nil
  then show ?case by simp
next
  case (Cons it its)
  obtain pid0 track where it: "it = (pid0, track)" by (cases it)
  from Cons.prems it obtain bbox where bb: "map_of track ''bbox'' = Some bbox" by auto
  have rest: "\<forall>it\<in>set its. map_of (snd it) ''bbox'' \<noteq> None" using Cons.prems by simp
  show ?case
  proof (cases "map_of memo pid0")
    case (Some team)
    then have step: "team_item_body gpc t1 video_frames f it (entry, memo, calls)
        = Inr (AList.update pid0 team entry, memo, calls)"
      using assms(1) by (simp add: team_item_body_def it list_index_def dict_index_def bb
          get_player_team_def)
    from Some have inm: "pid0 \<in> fst ` set memo" by (simp add: domI dom_map_of_conv_image_fst[symmetric])
    from Cons.IH[OF rest, of "AList.update pid0 team entry" memo calls] obtain entry' memo' cs where
      r: "for_each its (team_item_body gpc t1 video_frames f) (AList.update pid0 team entry, memo, calls)
           = Inr (entry', memo', calls @ cs)"
      and k: "fst ` set memo' = fst ` set memo \<union> fst ` set its"
      and c: "\<forall>g pid. count_list cs (Classify g pid) =
        (if g = f \<and> pid \<in> fst ` set its \<and> pid \<notin> fst ` set memo then 1 else 0)"
      by (elim exE conjE) (rule that; assumption)
    have "for_each (it # its) (team_item_body gpc t1 video_frames f) (entry, memo, calls)
           = Inr (entry', memo', calls @ cs)"
      by (simp add: step r)
    moreover have "fst ` set memo' = fst ` set memo \<union> fst ` set (it # its)"
      using k inm by (auto simp: it)
    moreover have "\<forall>g pid. count_list cs (Classify g pid) =
        (if g = f \<and> pid \<in> fst ` set (it # its) \<and> pid \<notin> fst ` set memo then 1 else 0)"
      using c inm by (simp add: it)
    ultimately show ?thesis by (intro exI conjI)
  next
    case None
    let ?team = "if gpc (video_frames ! f) bbox = t1 then 1 else (2 :: int)"
    let ?memo = "AList.update pid0 ?team memo"
    have step: "team_item_body gpc t1 video_frames f it (entry, memo, calls)
        = Inr (AList.update pid0 ?team entry, ?memo, calls @ [Classify f pid0])"
      using assms(1) None by (simp add: team_item_body_def it list_index_def dict_index_def bb
          get_player_team_def Let_def)
    from None have nin: "pid0 \<notin> fst ` set memo" by (simp add: map_of_eq_None_iff)
    have km: "fst ` set ?memo = insert pid0 (fst ` set memo)" by (simp add: dom_update)
    from Cons.IH[OF rest, of "AList.update pid0 ?team entry" ?memo "calls @ [Classify f pid0]"]
    obtain entry' memo' cs where
      r: "for_each its (team_item_body gpc t1 video_frames f)
            (AList.update pid0 ?team entry, ?memo, calls @ [Classify f pid0])
           = Inr (entry', memo', (calls @ [Classify f pid0]) @ cs)"
      and k: "fst ` set memo' = fst ` set ?memo \<union> fst ` set its"
      and c: "\<forall>g pid. count_list cs (Classify g pid) =
        (if g = f \<and> pid \<in> fst ` set its \<and> pid \<notin> fst ` set ?memo then 1 else 0)"
      by (elim exE conjE) (rule that; assumption)
    have "for_each (it # its) (team_item_body gpc t1 video_frames f) (entry, memo, calls)
           = Inr (entry', memo', calls @ (Classify f pid0 # cs))"
      using r by (simp add: step)
    moreover have "fst ` set memo' = fst ` set memo \<union> fst ` set (it # its)"
      using k km by (auto simp: it)
    moreover have "\<forall>g pid. count_list (Classify f pid0 # cs) (Classify g pid) =
        (if g = f \<and> pid \<in> fst ` set (it # its) \<and> pid \<notin> fst ` set memo then 1 else 0)"
    proof (intro allI)
      fix g pid
      have cgp: "count_list cs (Classify g pid) =
        (if g = f \<and> pid \<in> fst ` set its \<and> pid \<notin> insert pid0 (fst ` set memo) then 1 else 0)"
        using c km by simp
      show "count_list (Classify f pid0 # cs) (Classify g pid) =
        (if g = f \<and> pid \<in> fst ` set (it # its) \<and> pid \<notin> fst ` set memo then 1 else 0)"
      proof (cases "g = f \<and> pid = pid0")
        case True
        then show ?thesis using cgp nin by (simp add: it)
      next
        case False
        then have "count_list (Classify f pid0 # cs) (Classify g pid) = count_list cs (Classify g pid)"
          by auto
        also have "\<dots> = (if g = f \<and> pid \<in> fst ` set (it # its) \<and> pid \<notin> fst ` set memo then 1 else 0)"
          unfolding cgp using False by (auto simp: it)
        finally show ?thesis .
      qed
    qed
    ultimately show ?thesis by (intro exI conjI)
  qed
qed

lemma same_window: "Suc n mod 50 \<noteq> 0 \<Longrightarrow> Suc n div 50 = n div 50"
  by (simp add: div_Suc)

lemma team_frames_loop:
  assumes "N \<le> length video_frames" "length tracks = N" "n \<le> N"
    and "\<forall>tr\<in>set tracks. \<forall>it\<in>set tr. map_of (snd it) ''bbox'' \<noteq> None"
    and "n mod 50 \<noteq> 0 \<longrightarrow>
           fst ` set memo = (\<Union>g\<in>{50 * (n div 50)..<n}. fst ` set (tracks ! g))"
  shows "\<exists>pa' memo' cs.
     for_each [n..<N] (team_frame_body gpc t1 video_frames tracks) (pa, memo, calls)
       = Inr (pa', memo', calls @ cs) \<and>
     length pa' = length pa + (N - n) \<and>
     (\<forall>f pid. count_list cs (Classify f pid) =
        (if n \<le> f \<and> f < N \<and> pid \<in> fst ` set (tracks ! f) \<and>
            pid \<notin> (\<Union>g\<in>{50 * (f div 50)..<f}. fst ` set (tracks ! g))
         then 1 else 0))"
  using assms(3,5)
proof (induction "N - n" arbitrary: n pa memo calls)
  case 0
  then show ?case by simp
next
  case (Suc k)
  then have n: "n < N" by simp
  have upt: "[n..<N] = n # [Suc n..<N]" using n by (simp add: upt_conv_Cons)
  have k: "k = N - Suc n" using Suc.hyps(2) by simp
  let ?W = "\<lambda>f. \<Union>g\<in>{50 * (f div 50)..<f}. fst ` set (tracks ! g)"
  let ?memo1 = "if n mod 50 = 0 then [] else memo"
  have w1: "fst ` set ?memo1 = ?W n"
  proof (cases "n mod 50 = 0")
    case True
    then have "50 * (n div 50) = n" using mult_div_mod_eq[of 50 n] by simp
    then show ?thesis using True by simp
  next
    case False
    then show ?thesis using Suc.prems(2) by simp
  qed
  have fl: "n < length video_frames" using n assms(1) by simp
  have "tracks ! n \<in> set tracks" using assms(2) n by simp
  with assms(4) have bb: "\<forall>it\<in>set (tracks ! n). map_of (snd it) ''bbox'' \<noteq> None"
    by (rule bspec)
  from team_items_loop[OF fl bb, of gpc t1 "[]" ?memo1 calls] obtain entry memo2 cs1 where
    i1: "for_each (tracks ! n) (team_item_body gpc t1 video_frames n) ([], ?memo1, calls)
           = Inr (entry, memo2, calls @ cs1)"
    and i2: "fst ` set memo2 = fst ` set ?memo1 \<union> fst ` set (tracks ! n)"
    and i3: "\<forall>g pid. count_list cs1 (Classify g pid) =
        (if g = n \<and> pid \<in> fst ` set (tracks ! n) \<and> pid \<notin> fst ` set ?memo1 then 1 else 0)"
    by (elim exE conjE) (rule that; assumption)
  have step: "team_frame_body gpc t1 video_frames tracks n (pa, memo, calls)
      = Inr (pa @ [entry], memo2, calls @ cs1)"
    using i1 by (simp add: team_frame_body_def)
  have inv: "Suc n mod 50 \<noteq> 0 \<longrightarrow> fst ` set memo2 = ?W (Suc n)"
  proof
    assume a: "Suc n mod 50 \<noteq> 0"
    have le: "50 * (n div 50) \<le> n" by simp
    have "{50 * (Suc n div 50)..<Suc n} = insert n {50 * (n div 50)..<n}"
      unfolding same_window[OF a] using le by auto
    then show "fst ` set memo2 = ?W (Suc n)"
      unfolding i2 w1 by auto
  qed
  have sn: "Suc n \<le> N" using n by simp
  from Suc.hyps(1)[OF k sn inv, of "pa @ [entry]" "calls @ cs1"] obtain pa' memo' cs2 where
    r1: "for_each [Suc n..<N] (team_frame_body gpc t1 video_frames tracks)
           (pa @ [entry], memo2, calls @ cs1) = Inr (pa', memo', (calls @ cs1) @ cs2)"
    and r2: "length pa' = length (pa @ [entry]) + (N - Suc n)"
    and r3: "\<forall>f pid. count_list cs2 (Classify f pid) =
        (if Suc n \<le> f \<and> f < N \<and> pid \<in> fst ` set (tracks ! f) \<and> pid \<notin> ?W f then 1 else 0)"
    by (elim exE conjE) (rule that; assumption)
  have A: "for_each [n..<N] (team_frame_body gpc t1 video_frames tracks) (pa, memo, calls)
       = Inr (pa', memo', calls @ (cs1 @ cs2))"
    using r1 by (simp add: upt step)
  have B: "length pa' = length pa + (N - n)" using r2 n by simp
  have C: "\<forall>f pid. count_list (cs1 @ cs2) (Classify f pid) =
        (if n \<le> f \<and> f < N \<and> pid \<in> fst ` set (tracks ! f) \<and> pid \<notin> ?W f then 1 else 0)"
  proof (intro allI)
    fix f pid
    have c1: "count_list cs1 (Classify f pid) =
        (if f = n \<and> pid \<in> fst ` set (tracks ! n) \<and> pid \<notin> ?W n then 1 else 0)"
      using i3 w1 by simp
    have c2: "count_list cs2 (Classify f pid) =
        (if Suc n \<le> f \<and> f < N \<and> pid \<in> fst ` set (tracks ! f) \<and> pid \<notin> ?W f then 1 else 0)"
      using r3 by simp
    show "count_list (cs1 @ cs2) (Classify f pid) =
        (if n \<le> f \<and> f < N \<and> pid \<in> fst ` set (tracks ! f) \<and> pid \<notin> ?W f then 1 else 0)"
    proof (cases "f = n")
      case True
      then show ?thesis unfolding count_list_append c1 c2 using n by simp
    next
      case False
      then have "(n \<le> f) = (Suc n \<le> f)" by auto
      then show ?thesis unfolding count_list_append c1 c2 using False by simp
    qed
  qed
  from A B C show ?case by (intro exI conjI)
qed

text \<open>
  Claim C9. On the cache-miss path, with a track sequence no longer than the frame
  list whose tracks all carry a box, the classifier is called for identity \<open>pid\<close> at
  frame \<open>f\<close> exactly once when \<open>pid\<close> is tracked in \<open>f\<close> and in no earlier frame of the
  same window of 50 frames (the windows start at the multiples of 50, where the memo
  table is cleared), and not at all otherwise: a second frame of the same window reuses
  the memo, the first frame after a boundary classifies again. A classification yields
  team 1 when the label equals the team-1 description, team 2 otherwise.
\<close>

theorem team_memo_window:
  assumes "length player_tracks \<le> length video_frames"
    and "\<forall>tr\<in>set player_tracks. \<forall>it\<in>set tr. map_of (snd it) ''bbox'' \<noteq> None"
    and "read_stub (fsys w) read_from_stub stub_path = Inr cached"
    and "valid_cache cached video_frames = None"
  shows "\<exists>pa memo' cs.
     get_player_teams_across_frames gpc t1 memo w video_frames player_tracks read_from_stub stub_path
       = (case save_stub (fsys w) stub_path pa of
            Inl e \<Rightarrow> Inl e
          | Inr fs' \<Rightarrow> Inr (pa, memo', \<lparr>fsys = fs', ext_calls = ext_calls w @ Load_model # cs\<rparr>)) \<and>
     length pa = length player_tracks \<and>
     (\<forall>f pid. count_list cs (Classify f pid) =
        (if f < length player_tracks \<and> pid \<in> fst ` set (player_tracks ! f) \<and>
            (\<forall>g. 50 * (f div 50) \<le> g \<and> g < f \<longrightarrow> pid \<notin> fst ` set (player_tracks ! g))
         then 1 else 0)) \<and>
     (map_of memo0 pid0 = None \<longrightarrow>
        get_player_team gpc t1 f0 frame bbox pid0 (memo0, calls0) =
          (if gpc frame bbox = t1 then 1 else 2,
           AList.update pid0 (if gpc frame bbox = t1 then 1 else 2) memo0,
           calls0 @ [Classify f0 pid0]))"
proof -
  let ?N = "length player_tracks"
  have inv: "0 mod 50 \<noteq> (0::nat) \<longrightarrow>
      fst ` set memo = (\<Union>g\<in>{50 * (0 div 50)..<0}. fst ` set (player_tracks ! g))"
    by simp
  from team_frames_loop[OF assms(1) refl le0 assms(2) inv, of gpc t1 "[]" "ext_calls w @ [Load_model]"]
  obtain pa memo' cs where
    l: "for_each [0..<?N] (team_frame_body gpc t1 video_frames player_tracks)
          ([], memo, ext_calls w @ [Load_model]) = Inr (pa, memo', (ext_calls w @ [Load_model]) @ cs)"
    and n: "length pa = ?N"
    and c: "\<forall>f pid. count_list cs (Classify f pid) =
        (if 0 \<le> f \<and> f < ?N \<and> pid \<in> fst ` set (player_tracks ! f) \<and>
            pid \<notin> (\<Union>g\<in>{50 * (f div 50)..<f}. fst ` set (player_tracks ! g))
         then 1 else 0)"
    by (elim exE conjE) (rule that, assumption, simp, assumption)
  have A: "get_player_teams_across_frames gpc t1 memo w video_frames player_tracks read_from_stub stub_path
       = (case save_stub (fsys w) stub_path pa of
            Inl e \<Rightarrow> Inl e
          | Inr fs' \<Rightarrow> Inr (pa, memo', \<lparr>fsys = fs', ext_calls = ext_calls w @ Load_model # cs\<rparr>))"
    by (simp add: get_player_teams_across_frames_def assms(3,4) l)
  have B: "length pa = ?N" using n by simp
  have C: "\<forall>f pid. count_list cs (Classify f pid) =
        (if f < ?N \<and> pid \<in> fst ` set (player_tracks ! f) \<and>
            (\<forall>g. 50 * (f div 50) \<le> g \<and> g < f \<longrightarrow> pid \<notin> fst ` set (player_tracks ! g))
         then 1 else 0)"
  proof (intro allI)
    fix f pid
    have "(pid \<notin> (\<Union>g\<in>{50 * (f div 50)..<f}. fst ` set (player_tracks ! g))) =
        (\<forall>g. 50 * (f div 50) \<le> g \<and> g < f \<longrightarrow> pid \<notin> fst ` set (player_tracks ! g))"
      by auto
    then show "count_list cs (Classify f pid) =
        (if f < ?N \<and> pid \<in> fst ` set (player_tracks ! f) \<and>
            (\<forall>g. 50 * (f div 50) \<le> g \<and> g < f \<longrightarrow> pid \<notin> fst ` set (player_tracks ! g))
         then 1 else 0)"
      using c by simp
  qed
  have D: "map_of memo0 pid0 = None \<longrightarrow>
        get_player_team gpc t1 f0 frame bbox pid0 (memo0, calls0) =
          (if gpc frame bbox = t1 then 1 else 2,
           AList.update pid0 (if gpc frame bbox = t1 then 1 else 2) memo0,
           calls0 @ [Classify f0 pid0])"
    by (simp add: get_player_team_def Let_def)
  from A B C D show ?thesis by (intro exI conjI)
qed

theorem team_memo_window_witness:
  "\<exists>pa memo' cs.
     get_player_teams_across_frames (\<lambda>frame bbox. ''white shirt'') ''white shirt'' []
         \<lparr>fsys = [''stubs'' \<mapsto> Dir], ext_calls = []\<rparr> (replicate 51 (0 :: nat))
         ([[(7, [(''bbox'', [0, 0, 10, 10])])], [(7, [(''bbox'', [1, 0, 11, 10])])]] @
          replicate 48 [] @ [[(7, [(''bbox'', [2, 0, 12, 10])])]])
         True (Some ''stubs/teams.pkl'')
       = (case save_stub [''stubs'' \<mapsto> Dir] (Some ''stubs/teams.pkl'') pa of
            Inl e \<Rightarrow> Inl e
          | Inr fs' \<Rightarrow> Inr (pa, memo', \<lparr>fsys = fs', ext_calls = Load_model # cs\<rparr>)) \<and>
     length pa = 51 \<and>
     count_list cs (Classify 0 7) = 1 \<and>
     count_list cs (Classify 1 7) = 0 \<and>
     count_list cs (Classify 50 7) = 1"
proof -
  let ?w = "\<lparr>fsys = [''stubs'' \<mapsto> Dir], ext_calls = []\<rparr> :: team_assignment list world"
  let ?frames = "replicate 51 (0 :: nat)"
  let ?tracks = "[[(7, [(''bbox'', [0, 0, 10, 10])])], [(7, [(''bbox'', [1, 0, 11, 10])])]] @
          replicate 48 [] @ [[(7 :: int, [(''bbox'', [2 :: real, 0, 12, 10])])]]"
  have h1: "length ?tracks \<le> length ?frames" by simp
  have h2: "\<forall>tr\<in>set ?tracks. \<forall>it\<in>set tr. map_of (snd it) ''bbox'' \<noteq> None" by auto
  have h3: "read_stub (fsys ?w) True (Some ''stubs/teams.pkl'') = Inr None"
    by (simp add: read_stub_def os_path_exists_def)
  have h4: "valid_cache (None :: team_assignment list option) ?frames = None"
    by (simp add: valid_cache_def)
  have t0: "?tracks ! 0 = [(7, [(''bbox'', [0, 0, 10, 10])])]" by simp
  have t1: "?tracks ! 1 = [(7, [(''bbox'', [1, 0, 11, 10])])]" by simp
  have t50: "?tracks ! 50 = [(7, [(''bbox'', [2, 0, 12, 10])])]" by (simp add: nth_append)
  from team_memo_window[OF h1 h2 h3 h4, of "\<lambda>frame bbox. ''white shirt''" "''white shirt''" "[]"
      "[]" 0 0 0 "[]" "[]"]
  obtain pa memo' cs where
    A: "get_player_teams_across_frames (\<lambda>frame bbox. ''white shirt'') ''white shirt'' [] ?w ?frames
          ?tracks True (Some ''stubs/teams.pkl'')
       = (case save_stub (fsys ?w) (Some ''stubs/teams.pkl'') pa of
            Inl e \<Rightarrow> Inl e
          | Inr fs' \<Rightarrow> Inr (pa, memo', \<lparr>fsys = fs', ext_calls = ext_calls ?w @ Load_model # cs\<rparr>))"
    and B: "length pa = length ?tracks"
    and C: "\<forall>f pid. count_list cs (Classify f pid) =
        (if f < length ?tracks \<and> pid \<in> fst ` set (?tracks ! f) \<and>
            (\<forall>g. 50 * (f div 50) \<le> g \<and> g < f \<longrightarrow> pid \<notin> fst ` set (?tracks ! g))
         then 1 else 0)"
    by (elim exE conjE) (rule that; assumption)
  have c0: "count_list cs (Classify 0 7) = 1"
    unfolding C[rule_format, of 0 7] t0 by simp
  have "\<not> (\<forall>g. 50 * (1 div 50) \<le> g \<and> g < (1::nat) \<longrightarrow> (7::int) \<notin> fst ` set (?tracks ! g))"
    by (simp add: exI[of _ 0])
  then have c1: "count_list cs (Classify 1 7) = 0"
    unfolding C[rule_format, of 1 7] by simp
  have c50: "count_list cs (Classify 50 7) = 1"
    unfolding C[rule_format, of 50 7] t50 by simp
  have A': "get_player_teams_across_frames (\<lambda>frame bbox. ''white shirt'') ''white shirt'' [] ?w ?frames
          ?tracks True (Some ''stubs/teams.pkl'')
       = (case save_stub [''stubs'' \<mapsto> Dir] (Some ''stubs/teams.pkl'') pa of
            Inl e \<Rightarrow> Inl e
          | Inr fs' \<Rightarrow> Inr (pa, memo', \<lparr>fsys = fs', ext_calls = Load_model # cs\<rparr>))"
  proof -
    have "ext_calls ?w @ Load_model # cs = Load_model # cs" by simp
    then show ?thesis using A by (simp only: world.simps)
  qed
  have B': "length pa = 51" using B by simp
  from A' B' c0 c1 c50 show ?thesis by (intro exI conjI)
qed

section \<open>Verification: interpolation\<close>

lemma interpolate_example_interior:
  "interpolate_ball_positions
     [ball_entry [0, 0, 10, 10], [], [], ball_entry [30, 30, 40, 40]]
   = Inr [[(1, [(''bbox'', [Some 0, Some 0, Some 10, Some 10])])],
          [(1, [(''bbox'', [Some 10, Some 10, Some 20, Some 20])])],
          [(1, [(''bbox'', [Some 20, Some 20, Some 30, Some 30])])],
          [(1, [(''bbox'', [Some 30, Some 30, Some 40, Some 40])])]]"
  by (simp add: interpolate_ball_positions_def box_of_ball_entry box_of_Nil data_frame_def
      data_frame_width_def df_columns_def df_rows_def upt_rec)

lemma interpolate_example_edges:
  "interpolate_ball_positions [[], ball_entry [4, 4, 8, 8], []]
   = Inr [[(1, [(''bbox'', [Some 4, Some 4, Some 8, Some 8])])],
          [(1, [(''bbox'', [Some 4, Some 4, Some 8, Some 8])])],
          [(1, [(''bbox'', [Some 4, Some 4, Some 8, Some 8])])]]"
  by (simp add: interpolate_ball_positions_def box_of_ball_entry box_of_Nil data_frame_def
      data_frame_width_def df_columns_def df_rows_def upt_rec)

lemma interpolate_example_all_empty: "interpolate_ball_positions [[], []] = Inl ValueError"
  by (simp add: interpolate_ball_positions_def box_of_Nil data_frame_def data_frame_width_def)

lemma interpolate_example_no_frames: "interpolate_ball_positions [] = Inr []"
  by (simp add: interpolate_ball_positions_def data_frame_def df_rows_def)

lemma length_interp_acc: "length (interp_acc a n xs) = n + length xs"
  by (induction a n xs rule: interp_acc.induct) simp_all

lemma length_interpolate_col: "length (interpolate_col xs) = length xs"
  by (induction xs rule: interpolate_col.induct) (simp_all add: length_interp_acc)

lemma length_bfill_col: "length (bfill_col xs) = length xs"
  by (induction xs rule: bfill_col.induct) (auto split: list.splits)

lemma interp_acc_all_valid: "None \<notin> set (interp_acc a n xs)"
  by (induction a n xs rule: interp_acc.induct) auto

lemma interp_acc_gap:
  "interp_acc a n (replicate m None @ Some b # post) =
     map (\<lambda>k. Some (a + (b - a) * real k / real (Suc (n + m)))) [1..<Suc (n + m)] @
     Some b # interp_acc b 0 post"
proof (induction m arbitrary: n)
  case 0
  then show ?case by simp
next
  case (Suc m)
  show ?case using Suc.IH[of "Suc n"] by simp
qed

lemma interp_acc_prefix:
  "\<exists>ys. length ys = n + length pre \<and>
     interp_acc c n (pre @ Some a # rest) = ys @ Some a # interp_acc a 0 rest"
proof (induction pre arbitrary: c n)
  case Nil
  show ?case
    by (rule exI[of _ "map (\<lambda>k. Some (c + (a - c) * real k / real (Suc n))) [1..<Suc n]"]) simp
next
  case (Cons x pre)
  show ?case
  proof (cases x)
    case None
    from Cons.IH[where c=c and n="Suc n"] obtain ys where
      "length ys = Suc n + length pre"
      "interp_acc c (Suc n) (pre @ Some a # rest) = ys @ Some a # interp_acc a 0 rest"
      by (elim exE conjE)
    then show ?thesis by (intro exI[of _ ys]) (simp add: None)
  next
    case (Some d)
    from Cons.IH[where c=d and n=0] obtain ys where
      ys: "length ys = 0 + length pre"
      "interp_acc d 0 (pre @ Some a # rest) = ys @ Some a # interp_acc a 0 rest"
      by (elim exE conjE)
    show ?thesis
      by (rule exI[of _ "map (\<lambda>k. Some (c + (d - c) * real k / real (Suc n))) [1..<Suc n] @ Some d # ys"])
        (simp add: Some ys)
  qed
qed

lemma interpolate_col_prefix:
  "\<exists>ys. length ys = length pre \<and>
     interpolate_col (pre @ Some a # rest) = ys @ Some a # interp_acc a 0 rest"
proof (induction pre)
  case Nil
  show ?case by (rule exI[of _ "[]"]) simp
next
  case (Cons x pre)
  show ?case
  proof (cases x)
    case None
    from Cons.IH obtain ys where
      "length ys = length pre"
      "interpolate_col (pre @ Some a # rest) = ys @ Some a # interp_acc a 0 rest"
      by (elim exE conjE)
    then show ?thesis by (intro exI[of _ "None # ys"]) (simp add: None)
  next
    case (Some d)
    from interp_acc_prefix[of 0 pre d a rest] obtain ys where
      ys: "length ys = 0 + length pre"
      "interp_acc d 0 (pre @ Some a # rest) = ys @ Some a # interp_acc a 0 rest"
      by (elim exE conjE)
    show ?thesis by (rule exI[of _ "Some d # ys"]) (simp add: Some ys)
  qed
qed

lemma interpolate_col_leading:
  "interpolate_col (replicate m None @ Some b # post) =
     replicate m None @ Some b # interp_acc b 0 post"
  by (induction m) simp_all

lemma bfill_col_keeps:
  "k < length xs \<Longrightarrow> xs ! k = Some v \<Longrightarrow> bfill_col xs ! k = Some v"
proof (induction xs arbitrary: k rule: bfill_col.induct)
  case 1
  then show ?case by simp
next
  case (2 a xs)
  then show ?case by (cases k) simp_all
next
  case (3 xs)
  then obtain k' where k: "k = Suc k'" by (cases k) simp_all
  with 3 have i: "bfill_col xs ! k' = Some v" by simp
  from 3 k have "k' < length (bfill_col xs)" by (simp add: length_bfill_col)
  then obtain y ys where b: "bfill_col xs = y # ys" by (cases "bfill_col xs") simp_all
  show ?case using i by (simp add: b k)
qed

lemma bfill_col_leading:
  "bfill_col (replicate m None @ Some b # ys) = replicate (Suc m) (Some b) @ bfill_col ys"
  by (induction m) (simp_all add: replicate_app_Cons_same)

lemma bfill_col_all_valid:
  "None \<notin> set zs \<Longrightarrow> None \<notin> set (bfill_col (ys @ Some v # zs))"
proof (induction ys)
  case Nil
  have "None \<notin> set zs \<Longrightarrow> None \<notin> set (bfill_col zs)" for zs :: "cell list"
    by (induction zs rule: bfill_col.induct) auto
  with Nil show ?case by simp
next
  case (Cons x ys)
  then have ih: "None \<notin> set (bfill_col (ys @ Some v # zs))" by simp
  show ?case
  proof (cases x)
    case None
    have "length (bfill_col (ys @ Some v # zs)) \<noteq> 0"
      unfolding length_bfill_col by simp
    then have "bfill_col (ys @ Some v # zs) \<noteq> []" by simp
    then show ?thesis using ih None by (cases "bfill_col (ys @ Some v # zs)") auto
  next
    case (Some d)
    then show ?thesis using ih by simp
  qed
qed

lemma fold_max_width:
  assumes "\<forall>l\<in>set ls. l = 0 \<or> l = (4::nat)" "4 \<in> set ls"
  shows "fold max ls 0 = 4"
proof -
  have "fold max ls 0 = Max (set (0 # ls))" by (rule Max.set_eq_fold[symmetric])
  also have "\<dots> = 4"
    using assms by (intro Max_eqI) auto
  finally show ?thesis .
qed

lemma data_frame_ok:
  assumes "\<forall>e\<in>set bp. box_of e = [] \<or> length (box_of e) = 4"
    and "\<exists>e\<in>set bp. box_of e \<noteq> []"
  shows "data_frame (map box_of bp) =
     Inr (map (\<lambda>e. map Some (box_of e) @ replicate (4 - length (box_of e)) None) bp)"
proof -
  have ne: "map box_of bp \<noteq> []" using assms(2) by auto
  have a: "\<forall>l\<in>set (map length (map box_of bp)). l = 0 \<or> l = (4::nat)"
    using assms(1) by auto
  from assms obtain e where "e \<in> set bp" "length (box_of e) = 4" by fastforce
  then have b: "4 \<in> set (map length (map box_of bp))" by force
  show ?thesis
    unfolding data_frame_def data_frame_width_def fold_max_width[OF a b]
    using ne by (simp add: comp_def)
qed

lemma padded_column:
  assumes "\<forall>e\<in>set bp. box_of e = [] \<or> length (box_of e) = 4" "c < 4"
  shows "map (\<lambda>row. row ! c)
           (map (\<lambda>e. map Some (box_of e) @ replicate (4 - length (box_of e)) None) bp)
         = ball_column c bp"
  unfolding ball_column_def map_map comp_def
proof (rule map_cong[OF refl])
  fix e assume "e \<in> set bp"
  with assms(1) have "box_of e = [] \<or> length (box_of e) = 4" by blast
  then show "(map Some (box_of e) @ replicate (4 - length (box_of e)) None) ! c
      = (if box_of e = [] then None else Some (box_of e ! c))"
    using assms(2) by (auto simp: nth_append)
qed

lemma interpolate_by_columns:
  assumes "\<forall>e\<in>set bp. box_of e = [] \<or> length (box_of e) = 4"
    and "\<exists>e\<in>set bp. box_of e \<noteq> []"
  shows "interpolate_ball_positions bp =
     Inr (map (\<lambda>i. [(1, [(''bbox'',
             map (\<lambda>c. bfill_col (interpolate_col (ball_column c bp)) ! i) [0..<4])])])
           [0..<length bp])"
proof -
  let ?df = "map (\<lambda>e. map Some (box_of e) @ replicate (4 - length (box_of e)) None) bp"
  have cols: "df_columns ?df = map (\<lambda>c. ball_column c bp) [0..<4]"
    unfolding df_columns_def data_frame_width_def
  proof (rule map_cong[OF refl])
    fix c assume "c \<in> set [0..<4]"
    then have "c < 4" by simp
    then show "map (\<lambda>row. row ! c) ?df = ball_column c bp"
      by (rule padded_column[OF assms(1)])
  qed
  show ?thesis
    unfolding interpolate_ball_positions_def Let_def data_frame_ok[OF assms]
    by (simp add: df_rows_def comp_def cols)
qed

lemma ball_column_gap:
  "\<forall>e\<in>set gap. box_of e = [] \<Longrightarrow> ball_column c gap = replicate (length gap) None"
  by (simp add: ball_column_def map_replicate_const[symmetric] cong: map_cong)

lemma ball_column_append: "ball_column c (xs @ ys) = ball_column c xs @ ball_column c ys"
  by (simp add: ball_column_def)

lemma ball_column_Cons:
  "ball_column c (e # xs) = (if box_of e = [] then None else Some (box_of e ! c)) # ball_column c xs"
  by (simp add: ball_column_def)

lemma length_ball_column: "length (ball_column c bp) = length bp"
  by (simp add: ball_column_def)

lemma col_valid:
  assumes "e \<in> set bp" "box_of e \<noteq> []"
  shows "None \<notin> set (bfill_col (interpolate_col (ball_column c bp)))"
proof -
  from assms(1) obtain p q where bp: "bp = p @ e # q" by (auto dest: split_list)
  have col: "ball_column c bp = ball_column c p @ Some (box_of e ! c) # ball_column c q"
    using assms(2) by (simp add: bp ball_column_append ball_column_Cons)
  from interpolate_col_prefix[of "ball_column c p" "box_of e ! c" "ball_column c q"]
  obtain ys where
    "interpolate_col (ball_column c p @ Some (box_of e ! c) # ball_column c q)
       = ys @ Some (box_of e ! c) # interp_acc (box_of e ! c) 0 (ball_column c q)"
    by (elim exE conjE)
  then show ?thesis
    unfolding col using bfill_col_all_valid[OF interp_acc_all_valid] by simp
qed

lemma col_interior:
  assumes "box_of ea \<noteq> []" "box_of eb \<noteq> []" "\<forall>e\<in>set gap. box_of e = []" "k < length gap"
  shows "bfill_col (interpolate_col (ball_column c (pre @ ea # gap @ eb # post)))
           ! (length pre + 1 + k)
         = Some (box_of ea ! c +
                 (box_of eb ! c - box_of ea ! c) * real (k + 1) / real (length gap + 1))"
proof -
  let ?a = "box_of ea ! c" and ?b = "box_of eb ! c" and ?g = "length gap"
  let ?M = "map (\<lambda>k. Some (?a + (?b - ?a) * real k / real (Suc (0 + ?g)))) [1..<Suc (0 + ?g)]"
  let ?col = "ball_column c (pre @ ea # gap @ eb # post)"
  have col: "?col = ball_column c pre @ Some ?a #
      (replicate ?g None @ Some ?b # ball_column c post)"
    using assms(1,2) by (simp add: ball_column_append ball_column_Cons ball_column_gap[OF assms(3)])
  from interpolate_col_prefix[of "ball_column c pre" ?a
      "replicate ?g None @ Some ?b # ball_column c post"]
  obtain ys where ys: "length ys = length (ball_column c pre)"
    and i: "interpolate_col (ball_column c pre @ Some ?a #
        (replicate ?g None @ Some ?b # ball_column c post))
       = ys @ Some ?a # interp_acc ?a 0 (replicate ?g None @ Some ?b # ball_column c post)"
    by (elim exE conjE)
  have i2: "interpolate_col ?col = ys @ Some ?a # (?M @ Some ?b # interp_acc ?b 0 (ball_column c post))"
    unfolding col i interp_acc_gap ..
  have ly: "length ys = length pre" using ys by (simp add: length_ball_column)
  have "interpolate_col ?col ! (length pre + 1 + k) = ?M ! k"
    unfolding i2 using ly assms(4) by (simp add: nth_append)
  also have "\<dots> = Some (?a + (?b - ?a) * real (k + 1) / real (?g + 1))"
    using assms(4) by (simp del: upt_Suc)
  finally have v: "interpolate_col ?col ! (length pre + 1 + k)
      = Some (?a + (?b - ?a) * real (k + 1) / real (?g + 1))" .
  have "length pre + 1 + k < length (interpolate_col ?col)"
    using assms(4) by (simp add: length_interpolate_col length_ball_column)
  from bfill_col_keeps[OF this v] show ?thesis .
qed

lemma col_leading:
  assumes "box_of eb \<noteq> []" "\<forall>e\<in>set gap. box_of e = []" "k < length gap"
  shows "bfill_col (interpolate_col (ball_column c (gap @ eb # post))) ! k = Some (box_of eb ! c)"
proof -
  have col: "ball_column c (gap @ eb # post)
      = replicate (length gap) None @ Some (box_of eb ! c) # ball_column c post"
    using assms(1) by (simp add: ball_column_append ball_column_Cons ball_column_gap[OF assms(2)])
  show ?thesis
    unfolding col interpolate_col_leading bfill_col_leading
    using assms(3) by (auto simp: nth_append nth_Cons')
qed

text \<open>
  Claim C2. On a sequence with at least one box, whose boxes are empty or have four
  coordinates, \<open>interpolate_ball_positions\<close> succeeds and every frame of the result
  has a box of four valid coordinates. A run of missing frames between two frames
  with boxes is filled linearly between these two neighbours, each coordinate on its
  own; a leading run of missing frames takes the first valid box. For
  \<open>[[0,0,10,10], None, None, [30,30,40,40]]\<close> the middle frames become
  \<open>[10,10,20,20]\<close> and \<open>[20,20,30,30]\<close>.
\<close>

theorem interpolate_ball_positions_fills:
  assumes "\<forall>e\<in>set bp. box_of e = [] \<or> length (box_of e) = 4"
    and "\<exists>e\<in>set bp. box_of e \<noteq> []"
  shows "\<exists>out. interpolate_ball_positions bp = Inr out \<and> length out = length bp \<and>
    (\<forall>k<length bp. \<exists>b. length b = 4 \<and> out ! k = [(1, [(''bbox'', map Some b)])]) \<and>
    (\<forall>pre ea gap eb post k.
       bp = pre @ ea # gap @ eb # post \<and> box_of ea \<noteq> [] \<and> box_of eb \<noteq> [] \<and>
       (\<forall>e\<in>set gap. box_of e = []) \<and> k < length gap \<longrightarrow>
       out ! (length pre + 1 + k) =
         [(1, [(''bbox'',
            map (\<lambda>c. Some (box_of ea ! c +
                   (box_of eb ! c - box_of ea ! c) * real (k + 1) / real (length gap + 1)))
              [0..<4])])]) \<and>
    (\<forall>gap eb post k.
       bp = gap @ eb # post \<and> box_of eb \<noteq> [] \<and> (\<forall>e\<in>set gap. box_of e = []) \<and> k < length gap \<longrightarrow>
       out ! k = [(1, [(''bbox'', map Some (box_of eb))])])"
proof -
  let ?cell = "\<lambda>c i. bfill_col (interpolate_col (ball_column c bp)) ! i"
  let ?row = "\<lambda>i. [(1 :: int, [(''bbox'', map (\<lambda>c. ?cell c i) [0..<4])])]"
  let ?out = "map ?row [0..<length bp]"
  have A: "interpolate_ball_positions bp = Inr ?out"
    by (rule interpolate_by_columns[OF assms])
  have B: "length ?out = length bp" by simp
  have nth: "?out ! i = ?row i" if "i < length bp" for i
    using that by simp
  from assms(2) obtain e0 where e0: "e0 \<in> set bp" "box_of e0 \<noteq> []" by blast
  have C: "\<forall>k<length bp. \<exists>b. length b = 4 \<and> ?out ! k = [(1, [(''bbox'', map Some b)])]"
  proof (intro allI impI)
    fix k assume k: "k < length bp"
    have v: "?cell c k \<noteq> None" for c
    proof -
      have "k < length (bfill_col (interpolate_col (ball_column c bp)))"
        using k by (simp add: length_bfill_col length_interpolate_col length_ball_column)
      then have "?cell c k \<in> set (bfill_col (interpolate_col (ball_column c bp)))"
        by (rule nth_mem)
      with col_valid[OF e0, of c] show ?thesis by metis
    qed
    let ?b = "map (\<lambda>c. the (?cell c k)) [0..<4]"
    have "map Some ?b = map (\<lambda>c. ?cell c k) [0..<4]"
      using v by (simp add: comp_def)
    then have "?out ! k = [(1, [(''bbox'', map Some ?b)])]" using nth[OF k] by simp
    moreover have "length ?b = 4" by simp
    ultimately show "\<exists>b. length b = 4 \<and> ?out ! k = [(1, [(''bbox'', map Some b)])]"
      by (intro exI[of _ ?b] conjI)
  qed
  have D: "\<forall>pre ea gap eb post k.
       bp = pre @ ea # gap @ eb # post \<and> box_of ea \<noteq> [] \<and> box_of eb \<noteq> [] \<and>
       (\<forall>e\<in>set gap. box_of e = []) \<and> k < length gap \<longrightarrow>
       ?out ! (length pre + 1 + k) =
         [(1, [(''bbox'',
            map (\<lambda>c. Some (box_of ea ! c +
                   (box_of eb ! c - box_of ea ! c) * real (k + 1) / real (length gap + 1)))
              [0..<4])])]"
  proof (intro allI impI, elim conjE)
    fix pre ea gap eb post k
    assume bp: "bp = pre @ ea # gap @ eb # post" and a: "box_of ea \<noteq> []"
      and b: "box_of eb \<noteq> []" and g: "\<forall>e\<in>set gap. box_of e = []" and k: "k < length gap"
    have i: "length pre + 1 + k < length bp" using k by (simp add: bp)
    have "?cell c (length pre + 1 + k) = Some (box_of ea ! c +
                   (box_of eb ! c - box_of ea ! c) * real (k + 1) / real (length gap + 1))" for c
      unfolding bp by (rule col_interior[OF a b g k])
    then show "?out ! (length pre + 1 + k) =
         [(1, [(''bbox'',
            map (\<lambda>c. Some (box_of ea ! c +
                   (box_of eb ! c - box_of ea ! c) * real (k + 1) / real (length gap + 1)))
              [0..<4])])]"
      unfolding nth[OF i] by simp
  qed
  have E: "\<forall>gap eb post k.
       bp = gap @ eb # post \<and> box_of eb \<noteq> [] \<and> (\<forall>e\<in>set gap. box_of e = []) \<and> k < length gap \<longrightarrow>
       ?out ! k = [(1, [(''bbox'', map Some (box_of eb))])]"
  proof (intro allI impI, elim conjE)
    fix gap eb post k
    assume bp: "bp = gap @ eb # post" and b: "box_of eb \<noteq> []"
      and g: "\<forall>e\<in>set gap. box_of e = []" and k: "k < length gap"
    have i: "k < length bp" using k by (simp add: bp)
    have "eb \<in> set bp" by (simp add: bp)
    with assms(1) b have l: "length (box_of eb) = 4" by blast
    have c: "?cell c k = Some (box_of eb ! c)" for c
      unfolding bp by (rule col_leading[OF b g k])
    have "map (\<lambda>c. Some (box_of eb ! c)) [0..<4] = map Some (map (\<lambda>c. box_of eb ! c) [0..<length (box_of eb)])"
      by (simp add: l comp_def)
    also have "\<dots> = map Some (box_of eb)" by (simp only: map_nth)
    finally show "?out ! k = [(1, [(''bbox'', map Some (box_of eb))])]"
      unfolding nth[OF i] c by simp
  qed
  from A B C D E show ?thesis by (intro exI[of _ ?out] conjI)
qed

theorem interpolate_ball_positions_fills_witness:
  "\<exists>out. interpolate_ball_positions
            [ball_entry [0, 0, 10, 10], [], [], ball_entry [30, 30, 40, 40]] = Inr out \<and>
     length out = 4 \<and>
     out ! 1 = [(1, [(''bbox'', [Some 10, Some 10, Some 20, Some 20])])] \<and>
     out ! 2 = [(1, [(''bbox'', [Some 20, Some 20, Some 30, Some 30])])]"
proof -
  let ?ea = "ball_entry [0, 0, 10, 10]" and ?eb = "ball_entry [30, 30, 40, 40]"
  let ?bp = "[?ea, [], [], ?eb]"
  have wf: "\<forall>e\<in>set ?bp. box_of e = [] \<or> length (box_of e) = 4"
    by (simp add: box_of_ball_entry box_of_Nil)
  have ex: "\<exists>e\<in>set ?bp. box_of e \<noteq> []"
    by (simp add: box_of_ball_entry)
  from interpolate_ball_positions_fills[OF wf ex] obtain out where
    A: "interpolate_ball_positions ?bp = Inr out" and B: "length out = length ?bp"
    and D: "\<forall>pre ea gap eb post k.
       ?bp = pre @ ea # gap @ eb # post \<and> box_of ea \<noteq> [] \<and> box_of eb \<noteq> [] \<and>
       (\<forall>e\<in>set gap. box_of e = []) \<and> k < length gap \<longrightarrow>
       out ! (length pre + 1 + k) =
         [(1, [(''bbox'',
            map (\<lambda>c. Some (box_of ea ! c +
                   (box_of eb ! c - box_of ea ! c) * real (k + 1) / real (length gap + 1)))
              [0..<4])])]"
    by (elim exE conjE)
  have dec: "?bp = [] @ ?ea # [[], []] @ ?eb # []" by simp
  have side: "box_of ?ea \<noteq> []" "box_of ?eb \<noteq> []" "\<forall>e\<in>set [[], [] :: track_entry]. box_of e = []"
    by (simp_all add: box_of_ball_entry box_of_Nil)
  have up: "[0..<4] = [0, 1, 2, 3]" by (simp add: upt_rec)
  have "out ! (length ([] :: track_entry list) + 1 + 0) =
      [(1, [(''bbox'', map (\<lambda>c. Some (box_of ?ea ! c +
                   (box_of ?eb ! c - box_of ?ea ! c) * real (0 + 1) / real (length [[], [] :: track_entry] + 1)))
              [0..<4])])]"
  proof (rule D[rule_format, of "[]" ?ea "[[], []]" ?eb "[]" 0])
    show "?bp = [] @ ?ea # [[], []] @ ?eb # [] \<and> box_of ?ea \<noteq> [] \<and> box_of ?eb \<noteq> [] \<and>
       (\<forall>e\<in>set [[], [] :: track_entry]. box_of e = []) \<and> 0 < length [[], [] :: track_entry]"
      by (intro conjI dec side) simp
  qed
  then have o1: "out ! 1 = [(1, [(''bbox'', [Some 10, Some 10, Some 20, Some 20])])]"
    by (simp add: up box_of_ball_entry)
  have "out ! (length ([] :: track_entry list) + 1 + 1) =
      [(1, [(''bbox'', map (\<lambda>c. Some (box_of ?ea ! c +
                   (box_of ?eb ! c - box_of ?ea ! c) * real (1 + 1) / real (length [[], [] :: track_entry] + 1)))
              [0..<4])])]"
  proof (rule D[rule_format, of "[]" ?ea "[[], []]" ?eb "[]" 1])
    show "?bp = [] @ ?ea # [[], []] @ ?eb # [] \<and> box_of ?ea \<noteq> [] \<and> box_of ?eb \<noteq> [] \<and>
       (\<forall>e\<in>set [[], [] :: track_entry]. box_of e = []) \<and> 1 < length [[], [] :: track_entry]"
      by (intro conjI dec side) simp
  qed
  then have o2: "out ! 2 = [(1, [(''bbox'', [Some 20, Some 20, Some 30, Some 30])])]"
    by (simp add: up box_of_ball_entry numeral_2_eq_2)
  have B': "length out = 4" using B by simp
  from A B' o1 o2 show ?thesis by (intro exI[of _ out] conjI)
qed

text \<open>
  Claim C3 says that a sequence whose frames are all empty comes back empty, without
  a failure. Every row handed to \<open>pd.DataFrame\<close> is then the empty list, the data has
  no column while four column names are passed, and the constructor raises
  ValueError.
\<close>

theorem interpolate_all_empty_raises:
  assumes "bp \<noteq> []" "\<forall>e\<in>set bp. box_of e = []"
  shows "interpolate_ball_positions bp = Inl ValueError"
proof -
  have "fold max (map length (map box_of bp)) 0 = Max (set (0 # map length (map box_of bp)))"
    by (rule Max.set_eq_fold[symmetric])
  also have "\<dots> = 0" using assms(2) by (intro Max_eqI) auto
  finally have "fold max (map length (map box_of bp)) 0 = 0" .
  then show ?thesis
    using assms(1) by (simp add: interpolate_ball_positions_def data_frame_def data_frame_width_def)
qed

theorem interpolate_all_empty_raises_witness:
  "interpolate_ball_positions [[], []] = Inl ValueError"
  by (rule interpolate_all_empty_raises) (simp_all add: box_of_Nil)

end
